theory Spec2Isabelle
  imports Complex_Main
begin

section \<open>Data model\<close>

text \<open>
  The program computes on IEEE doubles; they are modelled as the real numbers, so
  rounding, infinities and NaN are outside the model.  An Eigen \<open>ArrayXd\<close> is a list,
  an \<open>ArrayXXd\<close> is given by its two dimensions and its coefficients, so that every
  row has \<open>cols\<close> entries as in the library.
\<close>

record ArrayXXd =
  rows :: nat
  cols :: nat
  coeffs :: "nat \<Rightarrow> nat \<Rightarrow> real"

definition row :: "ArrayXXd \<Rightarrow> nat \<Rightarrow> real list" where
  "row a i = map (coeffs a i) [0..<cols a]"

text \<open>
  The part of \<open>NestedSampler\<close> that \<open>Results\<close> reads: the public members
  \<open>posteriorSample\<close>, \<open>logLikelihoodOfPosteriorSample\<close>, \<open>logWeightOfPosteriorSample\<close>
  and the values behind the three getters.
\<close>

record NestedSampler =
  posteriorSample :: ArrayXXd
  logLikelihoodOfPosteriorSample :: "real list"
  logWeightOfPosteriorSample :: "real list"
  getLogEvidence :: real
  getLogEvidenceError :: real
  getInformationGain :: real

text \<open>
  What Eigen's assertions stop is an error value of the model: an index outside an
  array, a coefficient-wise product of arrays of two sizes, the extremum of an empty
  array.
\<close>

datatype error = OutOfBounds | SizeMismatch | EmptyArray

text \<open>
  A variable or an array that is declared without a value holds what its storage held
  before.  The program does not determine these values, so they are a parameter of the
  model, one record for each pass of the loop over the free parameters: the
  coefficients of the two array copies of the removal, and the three variables
  \<open>medianParameter\<close>, \<open>limitParameterLeft\<close> and \<open>limitParameterRight\<close>.  A storage
  cell is \<open>None\<close> until it is assigned; \<open>held\<close> reads it.
\<close>

record unassigned =
  parameterComponentCopy0 :: "nat \<Rightarrow> real"
  marginalDistributionCopy0 :: "nat \<Rightarrow> real"
  medianParameter0 :: real
  limitParameterLeft0 :: real
  limitParameterRight0 :: real

definition held :: "real option \<Rightarrow> real \<Rightarrow> real" where
  "held cell before = (case cell of None \<Rightarrow> before | Some v \<Rightarrow> v)"

definition contents :: "(nat \<Rightarrow> real) \<Rightarrow> real option list \<Rightarrow> real list" where
  "contents before cells = map (\<lambda>n. held (cells ! n) (before n)) [0..<length cells]"

text \<open>\<open>DBL_MAX\<close> of the header cfloat, for IEEE binary64.\<close>

definition DBL_MAX :: real where
  "DBL_MAX = (2 - 1 / 2 ^ 52) * 2 ^ 1023"

text \<open>Coefficient access \<open>a(i)\<close>, for reading and for writing.\<close>

definition coeff :: "'a list \<Rightarrow> nat \<Rightarrow> error + 'a" where
  "coeff xs i = (if i < length xs then Inr (xs ! i) else Inl OutOfBounds)"

definition assign :: "'a list \<Rightarrow> nat \<Rightarrow> 'a \<Rightarrow> error + 'a list" where
  "assign xs i v = (if i < length xs then Inr (xs[i := v]) else Inl OutOfBounds)"

section \<open>Results::posteriorProbability\<close>

text \<open>
  \<^verbatim>\<open>ArrayXd logPosteriorDistribution = nestedSampler.logWeightOfPosteriorSample - nestedSampler.getLogEvidence();
  ArrayXd posteriorDistribution = logPosteriorDistribution.exp();\<close>
\<close>

definition posteriorProbability :: "NestedSampler \<Rightarrow> real list" where
  "posteriorProbability s =
     (let logPosteriorDistribution = map (\<lambda>lw. lw - getLogEvidence s) (logWeightOfPosteriorSample s)
      in map exp logPosteriorDistribution)"

text \<open>
  The log of the sum of the exponentials, the value the sampler accumulates as its log
  evidence.  Of no terms it is minus infinity, which is no real number.
\<close>

definition logsumexp :: "real list \<Rightarrow> real option" where
  "logsumexp ws = (if ws = [] then None else Some (ln (sum_list (map exp ws))))"

section \<open>Results::parameterEstimation\<close>

text \<open>Sequencing of steps that may stop with an error.\<close>

definition andThen :: "error + 'a \<Rightarrow> ('a \<Rightarrow> error + 'b) \<Rightarrow> error + 'b" where
  "andThen m f = (case m of Inl e \<Rightarrow> Inl e | Inr v \<Rightarrow> f v)"

text \<open>
  Modelled from the spec: \<open>Functions::sortElements\<close> is defined outside the given
  sources.  By the comment at its call it sorts the elements of its first array in
  increasing order and the elements of the second array accordingly; both arrays are
  changed in place, which the model renders by returning the two new arrays.  The two
  arrays have one size when the sampler holds one weight for each posterior point; the
  properties below that depend on the sort assume this.
\<close>

definition sortElements :: "real list \<Rightarrow> real list \<Rightarrow> real list \<times> real list" where
  "sortElements array1 array2 =
     (let pairs = sort_key fst (zip array1 array2) in (map fst pairs, map snd pairs))"

subsection \<open>Merging equal parameter values\<close>

text \<open>
  The state of the two merging loops: \<open>parameterComponent\<close>, \<open>marginalDistribution\<close>
  and \<open>NduplicateParameterComponents\<close>.  The body of the inner loop, at \<open>j\<close> and \<open>k\<close>:
  \<^verbatim>\<open>if (parameterComponent(k) == -DBL_MAX) continue;
  else if (parameterComponent(j) == parameterComponent(k)) {
      parameterComponent(k) = -DBL_MAX;
      marginalDistribution(j) = marginalDistribution(j) + marginalDistribution(k);
      marginalDistribution(k) = 0.0;
      NduplicateParameterComponents++; }\<close>
\<close>

type_synonym marginal = "real list \<times> real list \<times> nat"

definition mergeBody :: "nat \<Rightarrow> nat \<Rightarrow> marginal \<Rightarrow> error + marginal" where
  "mergeBody j k st =
     (case st of (parameterComponent, marginalDistribution, Nduplicate) \<Rightarrow>
        andThen (coeff parameterComponent k) (\<lambda>pk.
          if pk = - DBL_MAX then Inr st
          else andThen (coeff parameterComponent j) (\<lambda>pj.
            if pj = pk then
              andThen (assign parameterComponent k (- DBL_MAX)) (\<lambda>parameterComponent'.
              andThen (coeff marginalDistribution j) (\<lambda>mj.
              andThen (coeff marginalDistribution k) (\<lambda>mk.
              andThen (assign marginalDistribution j (mj + mk)) (\<lambda>marginalDistribution'.
              andThen (assign marginalDistribution' k 0) (\<lambda>marginalDistribution''.
                Inr (parameterComponent', marginalDistribution'', Nduplicate + 1))))))
            else Inr st)))"

text \<open>\<^verbatim>\<open>for (int k = j + 1; k < Niterations; k++)\<close>, entered with \<open>k = j + 1\<close>.\<close>

function mergeInner :: "nat \<Rightarrow> nat \<Rightarrow> nat \<Rightarrow> marginal \<Rightarrow> error + marginal" where
  "mergeInner Niterations j k st =
     (if k < Niterations then
        (case mergeBody j k st of
           Inl e \<Rightarrow> Inl e
         | Inr st' \<Rightarrow> mergeInner Niterations j (k + 1) st')
      else Inr st)"
  by pat_completeness auto
termination
  by (relation "measure (\<lambda>(Niterations, j, k, st). Niterations - k)") auto

text \<open>
  \<^verbatim>\<open>for (int j = 0; j < Niterations - 1; j++)\<close>; the bound is written \<open>j + 1 < Niterations\<close>,
  which is the same test on the integers and has no subtraction below zero.
\<close>

function mergeOuter :: "nat \<Rightarrow> nat \<Rightarrow> marginal \<Rightarrow> error + marginal" where
  "mergeOuter Niterations j st =
     (if j + 1 < Niterations then
        (case coeff (fst st) j of
           Inl e \<Rightarrow> Inl e
         | Inr pj \<Rightarrow>
             if pj = - DBL_MAX then mergeOuter Niterations (j + 1) st
             else (case mergeInner Niterations j (j + 1) st of
                     Inl e \<Rightarrow> Inl e
                   | Inr st' \<Rightarrow> mergeOuter Niterations (j + 1) st'))
      else Inr st)"
  by pat_completeness auto
termination
  by (relation "measure (\<lambda>(Niterations, j, st). Niterations - j)") auto

subsection \<open>Removing the flagged points\<close>

text \<open>
  The two copies are allocated with \<open>Niterations - NduplicateParameterComponents\<close>
  coefficients that hold no value yet (\<open>None\<close>); the loop fills them from the front.
  The count of duplicates never exceeds \<open>Niterations\<close> (each one flags another point),
  so the difference of the naturals is that of the integers.
  \<^verbatim>\<open>for (int m = 0; (m < Niterations) && (n < (Niterations - NduplicateParameterComponents)); m++)
      if (parameterComponent(m) == -DBL_MAX) continue;
      else if (parameterComponent(m) != -DBL_MAX) {
          parameterComponentCopy(n) = parameterComponent(m);
          marginalDistributionCopy(n) = marginalDistribution(m);
          n++; }\<close>
\<close>

type_synonym copies = "real option list \<times> real option list"

function removeLoop ::
  "nat \<Rightarrow> nat \<Rightarrow> real list \<Rightarrow> real list \<Rightarrow> nat \<Rightarrow> nat \<Rightarrow> copies \<Rightarrow> error + copies" where
  "removeLoop Niterations Nduplicate parameterComponent marginalDistribution m n cp =
     (if m < Niterations \<and> n < Niterations - Nduplicate then
        (case coeff parameterComponent m of
           Inl e \<Rightarrow> Inl e
         | Inr pm \<Rightarrow>
             if pm = - DBL_MAX then
               removeLoop Niterations Nduplicate parameterComponent marginalDistribution (m + 1) n cp
             else
               (case assign (fst cp) n (Some pm) of
                  Inl e \<Rightarrow> Inl e
                | Inr parameterComponentCopy \<Rightarrow>
                   (case coeff marginalDistribution m of
                      Inl e \<Rightarrow> Inl e
                    | Inr mm \<Rightarrow>
                       (case assign (snd cp) n (Some mm) of
                          Inl e \<Rightarrow> Inl e
                        | Inr marginalDistributionCopy \<Rightarrow>
                            removeLoop Niterations Nduplicate parameterComponent marginalDistribution
                              (m + 1) (n + 1) (parameterComponentCopy, marginalDistributionCopy)))))
      else Inr cp)"
  by pat_completeness auto
termination
  by (relation "measure (\<lambda>(Niterations, Nduplicate, pc, md, m, n, cp). Niterations - m)") auto

text \<open>
  \<^verbatim>\<open>if (NduplicateParameterComponents > 0) { ...; parameterComponent = parameterComponentCopy;
      marginalDistribution = marginalDistributionCopy; }\<close>
  After the block the two arrays may hold coefficients that were never written.
\<close>

definition removeBadPoints :: "nat \<Rightarrow> marginal \<Rightarrow> error + copies" where
  "removeBadPoints Niterations st =
     (case st of (parameterComponent, marginalDistribution, Nduplicate) \<Rightarrow>
        if Nduplicate > 0 then
          removeLoop Niterations Nduplicate parameterComponent marginalDistribution 0 0
            (replicate (Niterations - Nduplicate) None, replicate (Niterations - Nduplicate) None)
        else Inr (map Some parameterComponent, map Some marginalDistribution))"

text \<open>
  The marginal distribution of one parameter: the merging loops, then the removal.  The
  statements that follow read the two arrays as they are then, a coefficient that the
  removal has not written with the value its storage held.
\<close>

definition marginalize ::
  "unassigned \<Rightarrow> nat \<Rightarrow> real list \<Rightarrow> real list \<Rightarrow> error + real list \<times> real list" where
  "marginalize u Niterations parameterComponent marginalDistribution =
     andThen (mergeOuter Niterations 0 (parameterComponent, marginalDistribution, 0)) (\<lambda>st.
     andThen (removeBadPoints Niterations st) (\<lambda>cp.
       Inr (contents (parameterComponentCopy0 u) (fst cp),
            contents (marginalDistributionCopy0 u) (snd cp))))"

subsection \<open>Mean, median and mode\<close>

text \<open>
  \<^verbatim>\<open>meanParameter = (parameterComponent.cwiseProduct(marginalDistribution)).sum();\<close>
  The coefficient-wise product is defined for arrays of one size.
\<close>

definition cwiseProductSum :: "real list \<Rightarrow> real list \<Rightarrow> error + real" where
  "cwiseProductSum a b =
     (if length a = length b then Inr (sum_list (map2 (*) a b)) else Inl SizeMismatch)"

text \<open>
  \<^verbatim>\<open>while (totalProbability < 0.5) {
      medianParameter = parameterComponent(k);
      totalProbability += marginalDistribution(k);
      k++; }\<close>
  \<open>medianParameter\<close> is declared without a value (\<open>None\<close> on entry).
\<close>

function medianLoop ::
  "real list \<Rightarrow> real list \<Rightarrow> real option \<Rightarrow> real \<Rightarrow> nat \<Rightarrow> error + (real option \<times> real \<times> nat)" where
  "medianLoop parameterComponent marginalDistribution medianParameter totalProbability k =
     (if totalProbability < 1 / 2 then
        (case coeff parameterComponent k of
           Inl e \<Rightarrow> Inl e
         | Inr pk \<Rightarrow>
            (case coeff marginalDistribution k of
               Inl e \<Rightarrow> Inl e
             | Inr mk \<Rightarrow>
                 medianLoop parameterComponent marginalDistribution (Some pk)
                   (totalProbability + mk) (k + 1)))
      else Inr (medianParameter, totalProbability, k))"
  by pat_completeness auto
termination
  by (relation "measure (\<lambda>(pc, md, med, total, k). length pc - k)")
     (auto simp: coeff_def split: if_splits)

text \<open>
  Eigen's \<open>maxCoeff(&index)\<close> and \<open>minCoeff(&index)\<close>: the array must not be empty; the
  visitor starts from the first coefficient and moves on only to a coefficient that is
  strictly larger (smaller), so the index is that of the first extremal coefficient.
\<close>

fun maxVisit :: "real list \<Rightarrow> nat \<Rightarrow> real \<times> nat \<Rightarrow> real \<times> nat" where
  "maxVisit [] i best = best"
| "maxVisit (x # xs) i best =
     (if x > fst best then maxVisit xs (i + 1) (x, i) else maxVisit xs (i + 1) best)"

definition maxCoeff :: "real list \<Rightarrow> error + real \<times> nat" where
  "maxCoeff xs = (case xs of [] \<Rightarrow> Inl EmptyArray | x # rest \<Rightarrow> Inr (maxVisit rest 1 (x, 0)))"

fun minVisit :: "real list \<Rightarrow> nat \<Rightarrow> real \<times> nat \<Rightarrow> real \<times> nat" where
  "minVisit [] i best = best"
| "minVisit (x # xs) i best =
     (if x < fst best then minVisit xs (i + 1) (x, i) else minVisit xs (i + 1) best)"

definition minCoeff :: "real list \<Rightarrow> error + real \<times> nat" where
  "minCoeff xs = (case xs of [] \<Rightarrow> Inl EmptyArray | x # rest \<Rightarrow> Inr (minVisit rest 1 (x, 0)))"

subsection \<open>The credible interval\<close>

text \<open>
  \<^verbatim>\<open>for (int nn = 0; nn <= max; nn++) {
      marginalDistributionLeft(nn) = marginalDistribution(nn);
      parameterComponentLeft(nn) = parameterComponent(nn); }\<close>
  Both left arrays have \<open>max + 1\<close> coefficients, all written by the loop; the model builds
  each of them from the front.
\<close>

function copyLeft :: "real list \<Rightarrow> nat \<Rightarrow> nat \<Rightarrow> real list \<Rightarrow> error + real list" where
  "copyLeft source maxI nn left =
     (if nn \<le> maxI then
        (case coeff source nn of
           Inl e \<Rightarrow> Inl e
         | Inr v \<Rightarrow> copyLeft source maxI (nn + 1) (left @ [v]))
      else Inr left)"
  by pat_completeness auto
termination
  by (relation "measure (\<lambda>(source, maxI, nn, left). maxI + 1 - nn)") auto

text \<open>
  \<^verbatim>\<open>for (int t = min; t <= (max + stepRight); t++)
      totalProbability += marginalDistribution(t);\<close>
\<close>

function sumRange :: "real list \<Rightarrow> nat \<Rightarrow> nat \<Rightarrow> real \<Rightarrow> error + real" where
  "sumRange marginalDistribution t stop totalProbability =
     (if t \<le> stop then
        (case coeff marginalDistribution t of
           Inl e \<Rightarrow> Inl e
         | Inr v \<Rightarrow> sumRange marginalDistribution (t + 1) stop (totalProbability + v))
      else Inr totalProbability)"
  by pat_completeness auto
termination
  by (relation "measure (\<lambda>(md, t, stop, total). stop + 1 - t)") auto

text \<open>
  The body of the credible-interval loop at \<open>stepRight\<close>; it returns the new
  \<open>totalProbability\<close>, \<open>limitParameterLeft\<close> and \<open>limitParameterRight\<close>.
  \<^verbatim>\<open>totalProbability = 0.0;
  limitProbabilityRight = marginalDistribution(max + stepRight);
  limitParameterRight = parameterComponent(max + stepRight);
  marginalDifferenceLeft = (marginalDistributionLeft - limitProbabilityRight).abs();
  int min = 0;
  limitProbabilityLeft = marginalDifferenceLeft.minCoeff(&min);
  limitProbabilityLeft = marginalDistribution(min);
  limitParameterLeft = parameterComponent(min);
  for (int t = min; t <= (max + stepRight); t++) ...\<close>
\<close>

definition credibleBody ::
  "real list \<Rightarrow> real list \<Rightarrow> real list \<Rightarrow> nat \<Rightarrow> nat \<Rightarrow> error + (real \<times> real \<times> real)" where
  "credibleBody parameterComponent marginalDistribution marginalDistributionLeft maxI stepRight =
     andThen (coeff marginalDistribution (maxI + stepRight)) (\<lambda>limitProbabilityRight.
     andThen (coeff parameterComponent (maxI + stepRight)) (\<lambda>limitParameterRight.
     andThen (minCoeff (map (\<lambda>x. \<bar>x - limitProbabilityRight\<bar>) marginalDistributionLeft)) (\<lambda>found.
     andThen (coeff marginalDistribution (snd found)) (\<lambda>limitProbabilityLeft.
     andThen (coeff parameterComponent (snd found)) (\<lambda>limitParameterLeft.
     andThen (sumRange marginalDistribution (snd found) (maxI + stepRight) 0) (\<lambda>totalProbability.
       Inr (totalProbability, limitParameterLeft, limitParameterRight)))))))"

text \<open>
  \<^verbatim>\<open>while (totalProbability < (credibleLevel/100.)) { ...; stepRight++; }\<close>
  The loop starts from the \<open>totalProbability\<close> that the median loop has left, with
  \<open>stepRight = 1\<close> and both limits declared without a value (\<open>None\<close> on entry).
\<close>

type_synonym interval = "real \<times> nat \<times> real option \<times> real option"

function credibleLoop ::
  "real \<Rightarrow> real list \<Rightarrow> real list \<Rightarrow> real list \<Rightarrow> nat \<Rightarrow> real \<Rightarrow> nat \<Rightarrow> real option \<Rightarrow> real option \<Rightarrow> error + interval" where
  "credibleLoop credibleLevel parameterComponent marginalDistribution marginalDistributionLeft maxI 
       totalProbability stepRight limitParameterLeft limitParameterRight =
     (if totalProbability < credibleLevel / 100 then
          (case credibleBody parameterComponent marginalDistribution marginalDistributionLeft
                  maxI stepRight of
             Inl e \<Rightarrow> Inl e
           | Inr found \<Rightarrow>
               credibleLoop credibleLevel parameterComponent marginalDistribution
                 marginalDistributionLeft maxI
                 (fst found) (stepRight + 1) (Some (fst (snd found))) (Some (snd (snd found))))
        else Inr (totalProbability, stepRight, limitParameterLeft, limitParameterRight))"
  by pat_completeness auto
termination
  apply (relation "measure (\<lambda>(p, pc, md, mdl, maxI, total, stepRight, l, r).
                    length md - (maxI + stepRight))")
   apply simp
  apply (simp add: credibleBody_def andThen_def coeff_def split: if_splits sum.splits)
  done


subsection \<open>The estimates of one parameter\<close>

text \<open>
  The statements of the loop over the free parameters that follow the marginalization,
  on the merged arrays: the row (mean, median, mode, lower and upper credible offset).
  The median and the two limits are read after their loops, with the value of their
  storage when the loop has not assigned them.
\<close>

definition estimates ::
  "unassigned \<Rightarrow> real \<Rightarrow> real list \<Rightarrow> real list \<Rightarrow> error + real list" where
  "estimates u credibleLevel parameterComponent marginalDistribution =
     andThen (cwiseProductSum parameterComponent marginalDistribution) (\<lambda>meanParameter.
     andThen (medianLoop parameterComponent marginalDistribution None 0 0) (\<lambda>med.
     andThen (maxCoeff marginalDistribution) (\<lambda>mode.
     andThen (coeff parameterComponent (snd mode)) (\<lambda>maximumParameter.
     andThen (copyLeft marginalDistribution (snd mode) 0 []) (\<lambda>marginalDistributionLeft.
     andThen (copyLeft parameterComponent (snd mode) 0 []) (\<lambda>parameterComponentLeft.
     andThen (credibleLoop credibleLevel parameterComponent marginalDistribution
                marginalDistributionLeft (snd mode) (fst (snd med)) 1 None None) (\<lambda>ci.
       Inr [meanParameter,
            held (fst med) (medianParameter0 u),
            maximumParameter,
            maximumParameter - held (fst (snd (snd ci))) (limitParameterLeft0 u),
            held (snd (snd (snd ci))) (limitParameterRight0 u) - maximumParameter])))))))"

text \<open>One pass of the loop body, from the sorted arrays to the row of estimates.\<close>

definition parameterEstimationRow ::
  "unassigned \<Rightarrow> real \<Rightarrow> nat \<Rightarrow> real list \<Rightarrow> real list \<Rightarrow> error + real list" where
  "parameterEstimationRow u credibleLevel Niterations parameterComponent marginalDistribution =
     andThen (marginalize u Niterations parameterComponent marginalDistribution) (\<lambda>merged.
       estimates u credibleLevel (fst merged) (snd merged))"

subsection \<open>The loop over the free parameters\<close>

text \<open>
  The state of a call: the sampler that the \<open>Results\<close> object refers to, and the local
  arrays of \<open>parameterEstimation\<close>.  Assigning an Eigen array copies its coefficients,
  and \<open>sortElements\<close> receives the two local arrays.
\<close>

record state =
  nestedSampler :: NestedSampler
  posteriorDistribution :: "real list"
  parameterComponent :: "real list"
  marginalDistribution :: "real list"
  parameterEstimates :: "real list list"

text \<open>
  \<^verbatim>\<open>parameterComponent = nestedSampler.posteriorSample.row(i);
  marginalDistribution = posteriorDistribution;
  Functions::sortElements(parameterComponent, marginalDistribution);\<close>
  and then the rest of the body, which writes row \<open>i\<close> of \<open>parameterEstimates\<close>.
\<close>

definition estimationBody ::
  "(nat \<Rightarrow> unassigned) \<Rightarrow> real \<Rightarrow> nat \<Rightarrow> nat \<Rightarrow> state \<Rightarrow> error + state" where
  "estimationBody us credibleLevel Niterations i st =
     (let st1 = st\<lparr>parameterComponent := row (posteriorSample (nestedSampler st)) i\<rparr>;
          st2 = st1\<lparr>marginalDistribution := posteriorDistribution st1\<rparr>;
          sorted = sortElements (parameterComponent st2) (marginalDistribution st2);
          st3 = st2\<lparr>parameterComponent := fst sorted, marginalDistribution := snd sorted\<rparr>
      in andThen (parameterEstimationRow (us i) credibleLevel Niterations
                    (parameterComponent st3) (marginalDistribution st3)) (\<lambda>est.
         andThen (assign (parameterEstimates st3) i est) (\<lambda>parameterEstimates'.
           Inr (st3\<lparr>parameterEstimates := parameterEstimates'\<rparr>))))"

function estimationLoop ::
  "(nat \<Rightarrow> unassigned) \<Rightarrow> real \<Rightarrow> nat \<Rightarrow> nat \<Rightarrow> nat \<Rightarrow> state \<Rightarrow> error + state" where
  "estimationLoop us credibleLevel Ndimensions Niterations i st =
     (if i < Ndimensions then
        (case estimationBody us credibleLevel Niterations i st of
           Inl e \<Rightarrow> Inl e
         | Inr st' \<Rightarrow> estimationLoop us credibleLevel Ndimensions Niterations (i + 1) st')
      else Inr st)"
  by pat_completeness auto
termination
  by (relation "measure (\<lambda>(us, p, Ndimensions, Niterations, i, st). Ndimensions - i)") auto

text \<open>
  \<open>Results::posteriorProbability\<close> and \<open>Results::parameterEstimation\<close> as operations on
  the sampler: each returns its value and the sampler it leaves behind.
  \<open>parameterEstimates.resize(Ndimensions, 5)\<close> gives \<open>Ndimensions\<close> rows; a row that the
  loop has not written is the empty list.
\<close>

definition Results_posteriorProbability :: "NestedSampler \<Rightarrow> real list \<times> NestedSampler" where
  "Results_posteriorProbability s = (posteriorProbability s, s)"

definition parameterEstimation ::
  "(nat \<Rightarrow> unassigned) \<Rightarrow> real \<Rightarrow> NestedSampler \<Rightarrow> error + (real list list \<times> NestedSampler)" where
  "parameterEstimation us credibleLevel s =
     (let Ndimensions = rows (posteriorSample s);
          Niterations = cols (posteriorSample s);
          called = Results_posteriorProbability s;
          st = \<lparr>nestedSampler = snd called, posteriorDistribution = fst called,
                parameterComponent = [], marginalDistribution = [],
                parameterEstimates = replicate Ndimensions []\<rparr>
      in andThen (estimationLoop us credibleLevel Ndimensions Niterations 0 st) (\<lambda>st'.
           Inr (parameterEstimates st', nestedSampler st')))"

section \<open>The output operations\<close>

text \<open>
  An output file stream, as far as the operations use it: the float field and the
  precision that format a number, the width set for the next item, and what has been
  written.  A number is recorded with the format in force when it is written.
\<close>

datatype floatfield = general | fixed | scientific

datatype item =
    Text nat string
  | Number floatfield nat nat real
  | Endl
  | ArrayXd floatfield nat "real list"
  | ArrayXXd floatfield nat "real list list"

record ofstream =
  floatfield :: floatfield
  precision :: nat
  width :: nat
  written :: "item list"

text \<open>
  The inserters and manipulators of the standard library: an inserted string or number
  uses the width and resets it; \<open>scientific\<close> and \<open>fixed\<close> set the float field;
  \<open>setprecision\<close> and \<open>setw\<close> set the precision and the width.
\<close>

definition put_string :: "string \<Rightarrow> ofstream \<Rightarrow> ofstream" where
  "put_string text os = os\<lparr>written := written os @ [Text (width os) text], width := 0\<rparr>"

definition put_double :: "real \<Rightarrow> ofstream \<Rightarrow> ofstream" where
  "put_double x os =
     os\<lparr>written := written os @ [Number (floatfield os) (precision os) (width os) x], width := 0\<rparr>"

definition endl :: "ofstream \<Rightarrow> ofstream" where
  "endl os = os\<lparr>written := written os @ [Endl]\<rparr>"

definition set_scientific :: "ofstream \<Rightarrow> ofstream" where
  "set_scientific os = os\<lparr>floatfield := scientific\<rparr>"

definition set_fixed :: "ofstream \<Rightarrow> ofstream" where
  "set_fixed os = os\<lparr>floatfield := fixed\<rparr>"

definition setprecision :: "nat \<Rightarrow> ofstream \<Rightarrow> ofstream" where
  "setprecision n os = os\<lparr>precision := n\<rparr>"

definition setw :: "nat \<Rightarrow> ofstream \<Rightarrow> ofstream" where
  "setw n os = os\<lparr>width := n\<rparr>"

text \<open>
  Modelled from the spec: the class \<open>File\<close> is defined outside the given sources.
  \<open>File::openOutputFile\<close> opens the stream that the caller has just declared, which has
  the format of a new stream (no float field, precision 6).  \<open>File::arrayXdToFile\<close> and
  \<open>File::arrayXXdToFile\<close> write the values of an array, one column or one row per
  line; the model records each call with the format of the stream at the call.
\<close>

definition openOutputFile :: "string \<Rightarrow> ofstream" where
  "openOutputFile fullPath = \<lparr>floatfield = general, precision = 6, width = 0, written = []\<rparr>"

definition arrayXdToFile :: "real list \<Rightarrow> ofstream \<Rightarrow> ofstream" where
  "arrayXdToFile array os =
     os\<lparr>written := written os @ [ArrayXd (floatfield os) (precision os) array]\<rparr>"

definition arrayXXdToFile :: "real list list \<Rightarrow> ofstream \<Rightarrow> ofstream" where
  "arrayXXdToFile array os =
     os\<lparr>written := written os @ [ArrayXXd (floatfield os) (precision os) array]\<rparr>"

text \<open>The statements of an operation on its stream, in their order.\<close>

definition inserted :: "ofstream \<Rightarrow> (ofstream \<Rightarrow> ofstream) list \<Rightarrow> ofstream" where
  "inserted outputFile statements = foldl (\<lambda>os statement. statement os) outputFile statements"

definition writeLogLikelihoodToFile :: "string \<Rightarrow> NestedSampler \<Rightarrow> ofstream" where
  "writeLogLikelihoodToFile fullPath s =
     inserted (openOutputFile fullPath)
       [put_string ''# Posterior sample from nested sampling'', endl,
        put_string ''# log(Likelihood)'', endl,
        set_scientific, setprecision 9,
        arrayXdToFile (logLikelihoodOfPosteriorSample s)]"

definition writeEvidenceInformationToFile :: "string \<Rightarrow> NestedSampler \<Rightarrow> ofstream" where
  "writeEvidenceInformationToFile fullPath s =
     inserted (openOutputFile fullPath)
       [put_string ''# Evidence results from nested sampling'', endl,
        put_string ''# log(Evidence)'', setw 12, put_string ''Error of log(Evidence)'',
        setw 12, put_string ''Information Gain'', endl,
        set_scientific, setprecision 9,
        put_double (getLogEvidence s), setw 12,
        put_double (getLogEvidenceError s), setw 12,
        put_double (getInformationGain s), endl]"

definition writePosteriorProbabilityToFile :: "string \<Rightarrow> NestedSampler \<Rightarrow> ofstream" where
  "writePosteriorProbabilityToFile fullPath s =
     (let posteriorDistribution = fst (Results_posteriorProbability s)
      in inserted (openOutputFile fullPath)
           [put_string ''# Posterior probability distribution from nested sampling'', endl,
            set_scientific, setprecision 9,
            arrayXdToFile posteriorDistribution])"

definition writeParameterEstimationToFile ::
  "(nat \<Rightarrow> unassigned) \<Rightarrow> string \<Rightarrow> real \<Rightarrow> NestedSampler \<Rightarrow> error + ofstream" where
  "writeParameterEstimationToFile us fullPath credibleLevel s =
     andThen (parameterEstimation us credibleLevel s) (\<lambda>estimated.
       Inr (inserted (openOutputFile fullPath)
         [put_string ''# Summary of Parameter Estimation from nested sampling'', endl,
          put_string ''# Credible intervals are the shortest credible intervals'', endl,
          put_string ''# according to the usual definition'', endl,
          put_string ''# Credible level: '', set_fixed, setprecision 2,
          put_double credibleLevel, put_string '' %'', endl,
          put_string ''# Column #1: Expectation'', endl,
          put_string ''# Column #2: Median'', endl,
          put_string ''# Column #3: Mode'', endl,
          put_string ''# Column #4: Lower Credible Interval (CI)'', endl,
          put_string ''# Column #5: Upper Credible Interval (CI)'', endl,
          set_scientific, setprecision 9,
          arrayXXdToFile (fst estimated)]))"

text \<open>The formats of the numbers of a file, in the order in which they are written.\<close>

fun numericFormats :: "item list \<Rightarrow> (floatfield \<times> nat) list" where
  "numericFormats [] = []"
| "numericFormats (Number f p w x # items) = (f, p) # numericFormats items"
| "numericFormats (ArrayXd f p a # items) = (f, p) # numericFormats items"
| "numericFormats (ArrayXXd f p a # items) = (f, p) # numericFormats items"
| "numericFormats (Text w t # items) = numericFormats items"
| "numericFormats (Endl # items) = numericFormats items"

section \<open>What the marginalization computes\<close>

text \<open>
  The two merging loops and the removal are described on the list of pairs (parameter
  value, probability).  \<open>flagAll x\<close> is one run of the inner loop for the value \<open>x\<close>,
  \<open>massOf x\<close> the probability that it moves to the first point, \<open>mergeList\<close> the arrays
  after the outer loop, \<open>duplicates\<close> the final count, and \<open>unflagged\<close> the points that
  the removal keeps.
\<close>

definition flagAll :: "real \<Rightarrow> (real \<times> real) list \<Rightarrow> (real \<times> real) list" where
  "flagAll x ps = map (\<lambda>p. if fst p = x then (- DBL_MAX, 0) else p) ps"

definition massOf :: "real \<Rightarrow> (real \<times> real) list \<Rightarrow> real" where
  "massOf x ps = sum_list (map snd (filter (\<lambda>p. fst p = x) ps))"

function mergeList :: "(real \<times> real) list \<Rightarrow> (real \<times> real) list" where
  "mergeList [] = []"
| "mergeList (p # ps) =
     (if fst p = - DBL_MAX then p # mergeList ps
      else (fst p, snd p + massOf (fst p) ps) # mergeList (flagAll (fst p) ps))"
  by pat_completeness auto
termination
  by (relation "measure length") (auto simp: flagAll_def)

function duplicates :: "(real \<times> real) list \<Rightarrow> nat" where
  "duplicates [] = 0"
| "duplicates (p # ps) =
     (if fst p = - DBL_MAX then duplicates ps
      else length (filter (\<lambda>q. fst q = fst p) ps) + duplicates (flagAll (fst p) ps))"
  by pat_completeness auto
termination
  by (relation "measure length") (auto simp: flagAll_def)

definition unflagged :: "(real \<times> real) list \<Rightarrow> (real \<times> real) list" where
  "unflagged ps = filter (\<lambda>p. fst p \<noteq> - DBL_MAX) ps"

text \<open>
  The merged marginal distribution of parameter \<open>i\<close>: the arrays of the loop body after
  the copy, the sort, the merging loops and the removal.
\<close>

definition mergedMarginal ::
  "unassigned \<Rightarrow> NestedSampler \<Rightarrow> nat \<Rightarrow> error + real list \<times> real list" where
  "mergedMarginal u s i =
     (let sorted = sortElements (row (posteriorSample s) i) (posteriorProbability s)
      in marginalize u (cols (posteriorSample s)) (fst sorted) (snd sorted))"

section \<open>The shortest credible interval of the specification\<close>

text \<open>
  In the words of the specification: a contiguous interval of the merged values around
  the mode whose probability mass is at least the credible level, and of smallest total
  width among these.  \<open>mode\<close>, \<open>lo\<close> and \<open>hi\<close> are indices into the merged arrays.
\<close>

definition credibleInterval ::
  "real \<Rightarrow> real list \<Rightarrow> real list \<Rightarrow> nat \<Rightarrow> nat \<Rightarrow> nat \<Rightarrow> bool" where
  "credibleInterval credibleLevel pc md mode lo hi \<longleftrightarrow>
     lo \<le> mode \<and> mode \<le> hi \<and> hi < length pc \<and> hi < length md \<and>
     credibleLevel / 100 \<le> (\<Sum>t = lo..hi. md ! t)"

definition shortestCredibleInterval ::
  "real \<Rightarrow> real list \<Rightarrow> real list \<Rightarrow> nat \<Rightarrow> nat \<Rightarrow> nat \<Rightarrow> bool" where
  "shortestCredibleInterval credibleLevel pc md mode lo hi \<longleftrightarrow>
     credibleInterval credibleLevel pc md mode lo hi \<and>
     (\<forall>lo' \<in> {..mode}. \<forall>hi' \<in> {mode..<length pc}.
        credibleInterval credibleLevel pc md mode lo' hi' \<longrightarrow>
        pc ! hi - pc ! lo \<le> pc ! hi' - pc ! lo')"

section \<open>Samples for the examples\<close>

text \<open>
  A sampler after a run, given by the rows of its posterior sample and the posterior
  probabilities of its points: the log weights are their logarithms and the log evidence
  is 0, which is the log of the sum of the weights when the probabilities sum to 1.
\<close>

definition samplerOf :: "real list list \<Rightarrow> real list \<Rightarrow> NestedSampler" where
  "samplerOf sample probabilities =
     \<lparr>posteriorSample = \<lparr>rows = length sample, cols = length probabilities,
                          coeffs = (\<lambda>i j. sample ! i ! j)\<rparr>,
      logLikelihoodOfPosteriorSample = map (\<lambda>p. 0) probabilities,
      logWeightOfPosteriorSample = map ln probabilities,
      getLogEvidence = 0, getLogEvidenceError = 0, getInformationGain = 0\<rparr>"

text \<open>Storage of which every cell held the value \<open>g\<close>.\<close>

definition unassignedOf :: "real \<Rightarrow> unassigned" where
  "unassignedOf g =
     \<lparr>parameterComponentCopy0 = (\<lambda>n. g), marginalDistributionCopy0 = (\<lambda>n. g),
      medianParameter0 = g, limitParameterLeft0 = g, limitParameterRight0 = g\<rparr>"

section \<open>Properties of posteriorProbability\<close>

lemma sum_list_exp_pos: "ws \<noteq> [] \<Longrightarrow> 0 < sum_list (map exp ws)" for ws :: "real list"
proof (induction ws)
  case Nil
  then show ?case by simp
next
  case (Cons w ws)
  show ?case
  proof (cases "ws = []")
    case True
    then show ?thesis by simp
  next
    case False
    with Cons.IH have "0 < sum_list (map exp ws)" by simp
    moreover have "0 < exp w" by simp
    ultimately show ?thesis by (simp add: add_pos_pos)
  qed
qed

lemma sum_list_exp_shift:
  "sum_list (map (\<lambda>w. exp (w - z)) ws) = sum_list (map exp ws) / exp z" for ws :: "real list"
  by (induction ws) (simp_all add: exp_diff add_divide_distrib)

text \<open>
  C2.  posteriorProbability returns, point by point, exp (logW_i - logZ); when logZ is
  the log-sum-exp of all the log weights, the returned weights sum to 1, hence to 1
  within 10^-6.
\<close>

theorem posteriorProbability_normalized:
  "length (posteriorProbability s) = length (logWeightOfPosteriorSample s) \<and>
   (\<forall>i < length (logWeightOfPosteriorSample s).
      posteriorProbability s ! i = exp (logWeightOfPosteriorSample s ! i - getLogEvidence s)) \<and>
   (logsumexp (logWeightOfPosteriorSample s) = Some (getLogEvidence s) \<longrightarrow>
      sum_list (posteriorProbability s) = 1 \<and>
      \<bar>sum_list (posteriorProbability s) - 1\<bar> \<le> 1 / 10 ^ 6)"
proof -
  let ?ws = "logWeightOfPosteriorSample s"
  have pp: "posteriorProbability s = map (\<lambda>w. exp (w - getLogEvidence s)) ?ws"
    by (simp add: posteriorProbability_def Let_def comp_def)
  have sum1: "sum_list (posteriorProbability s) = 1"
    if h: "logsumexp ?ws = Some (getLogEvidence s)"
  proof -
    from h have ne: "?ws \<noteq> []" and z: "getLogEvidence s = ln (sum_list (map exp ?ws))"
      by (auto simp: logsumexp_def split: if_splits)
    from ne have pos: "0 < sum_list (map exp ?ws)" by (rule sum_list_exp_pos)
    then have "exp (getLogEvidence s) = sum_list (map exp ?ws)" by (simp add: z)
    with pos show ?thesis by (simp add: pp sum_list_exp_shift)
  qed
  show ?thesis using sum1 by (simp add: pp)
qed

theorem posteriorProbability_normalized_witness:
  "logsumexp (logWeightOfPosteriorSample
      \<lparr>posteriorSample = \<lparr>rows = 1, cols = 1, coeffs = (\<lambda>i j. 3)\<rparr>,
       logLikelihoodOfPosteriorSample = [0], logWeightOfPosteriorSample = [0],
       getLogEvidence = 0, getLogEvidenceError = 0, getInformationGain = 0\<rparr>) = Some 0 \<and>
   sum_list (posteriorProbability
      \<lparr>posteriorSample = \<lparr>rows = 1, cols = 1, coeffs = (\<lambda>i j. 3)\<rparr>,
       logLikelihoodOfPosteriorSample = [0], logWeightOfPosteriorSample = [0],
       getLogEvidence = 0, getLogEvidenceError = 0, getInformationGain = 0\<rparr>) = 1"
  using posteriorProbability_normalized
    [of "\<lparr>posteriorSample = \<lparr>rows = 1, cols = 1, coeffs = (\<lambda>i j. 3)\<rparr>,
       logLikelihoodOfPosteriorSample = [0], logWeightOfPosteriorSample = [0],
       getLogEvidence = 0, getLogEvidenceError = 0, getInformationGain = 0\<rparr>"]
  by (simp add: logsumexp_def)

section \<open>The merging loops and the removal, as list functions\<close>

declare mergeInner.simps [simp del] mergeOuter.simps [simp del] removeLoop.simps [simp del]

lemma mergeInner_append:
  assumes "x \<noteq> - DBL_MAX"
  shows "mergeInner (length A + 1 + length B + length C) (length A) (length A + 1 + length B)
           (map fst (A @ (x, m) # B @ C), map snd (A @ (x, m) # B @ C), nd)
         = Inr (map fst (A @ (x, m + massOf x C) # B @ flagAll x C),
                map snd (A @ (x, m + massOf x C) # B @ flagAll x C),
                nd + length (filter (\<lambda>q. fst q = x) C))"
proof (induction C arbitrary: B m nd)
  case Nil
  show ?case by (subst mergeInner.simps) (simp add: flagAll_def massOf_def)
next
  case (Cons c C)
  have step: "mergeInner (length A + 1 + length B + length (c # C)) (length A) (length A + 1 + length B)
           (map fst (A @ (x, m) # B @ c # C), map snd (A @ (x, m) # B @ c # C), nd)
      = mergeInner (length A + 1 + length (B @ [if fst c = x then (- DBL_MAX, 0) else c]) + length C) (length A)
           (length A + 1 + length (B @ [if fst c = x then (- DBL_MAX, 0) else c]))
           (map fst (A @ (x, if fst c = x then m + snd c else m) # (B @ [if fst c = x then (- DBL_MAX, 0) else c]) @ C),
            map snd (A @ (x, if fst c = x then m + snd c else m) # (B @ [if fst c = x then (- DBL_MAX, 0) else c]) @ C),
            if fst c = x then nd + 1 else nd)"
    using assms
    by (subst mergeInner.simps)
       (auto simp: mergeBody_def andThen_def coeff_def assign_def nth_append list_update_append)
  show ?case
    unfolding step
    by (subst Cons.IH) (auto simp: flagAll_def massOf_def)
qed


lemma length_flagAll [simp]: "length (flagAll x ps) = length ps"
  by (simp add: flagAll_def)

lemma mergeOuter_append:
  "mergeOuter (length A + length S) (length A) (map fst (A @ S), map snd (A @ S), nd)
     = Inr (map fst (A @ mergeList S), map snd (A @ mergeList S), nd + duplicates S)"
proof (induction S arbitrary: A nd rule: mergeList.induct)
  case 1
  show ?case by (subst mergeOuter.simps) simp
next
  case (2 p ps)
  show ?case
  proof (cases "ps = []")
    case True
    then show ?thesis
      by (subst mergeOuter.simps) (simp add: massOf_def flagAll_def)
  next
    case False
    then have lt: "length A + 1 < length A + length (p # ps)"
      by (cases ps) simp_all
    show ?thesis
    proof (cases "fst p = - DBL_MAX")
      case True
      have "mergeOuter (length A + length (p # ps)) (length A)
              (map fst (A @ p # ps), map snd (A @ p # ps), nd)
            = mergeOuter (length (A @ [p]) + length ps) (length (A @ [p]))
              (map fst ((A @ [p]) @ ps), map snd ((A @ [p]) @ ps), nd)"
        using lt True by (subst mergeOuter.simps) (simp add: coeff_def nth_append)
      also have "\<dots> = Inr (map fst ((A @ [p]) @ mergeList ps), map snd ((A @ [p]) @ mergeList ps),
                          nd + duplicates ps)"
        using True by (rule "2.IH"(1))
      finally show ?thesis using True by simp
    next
      case False
      obtain x m where p: "p = (x, m)" by (cases p)
      with False have x: "x \<noteq> - DBL_MAX" by simp
      let ?m' = "m + massOf x ps"
      let ?nd' = "nd + length (filter (\<lambda>q. fst q = x) ps)"
      have inner: "mergeInner (length A + length (p # ps)) (length A) (length A + 1)
                (map fst (A @ p # ps), map snd (A @ p # ps), nd)
             = Inr (map fst (A @ (x, ?m') # flagAll x ps), map snd (A @ (x, ?m') # flagAll x ps), ?nd')"
        using mergeInner_append [OF x, of A "[]" ps m nd] by (simp add: p)
      have "mergeOuter (length A + length (p # ps)) (length A)
              (map fst (A @ p # ps), map snd (A @ p # ps), nd)
            = mergeOuter (length (A @ [(x, ?m')]) + length (flagAll x ps)) (length (A @ [(x, ?m')]))
              (map fst ((A @ [(x, ?m')]) @ flagAll x ps), map snd ((A @ [(x, ?m')]) @ flagAll x ps), ?nd')"
        using lt x inner
        by (subst mergeOuter.simps) (simp add: coeff_def nth_append p)
      also have "\<dots> = Inr (map fst ((A @ [(x, ?m')]) @ mergeList (flagAll x ps)),
                          map snd ((A @ [(x, ?m')]) @ mergeList (flagAll x ps)),
                          ?nd' + duplicates (flagAll x ps))"
        using "2.IH"(2) [OF False, of "A @ [(x, ?m')]" ?nd'] by (simp add: p)
      finally show ?thesis using x by (simp add: p)
    qed
  qed
qed


lemma unflagged_simps [simp]:
  "unflagged [] = []"
  "unflagged (p # ps) = (if fst p = - DBL_MAX then unflagged ps else p # unflagged ps)"
  by (simp_all add: unflagged_def)

lemma removeLoop_append:
  assumes "length D + r = length A + length S - nd"
  shows "removeLoop (length A + length S) nd (map fst (A @ S)) (map snd (A @ S)) (length A) (length D)
           (map (\<lambda>p. Some (fst p)) D @ replicate r None, map (\<lambda>p. Some (snd p)) D @ replicate r None)
         = Inr (map (\<lambda>p. Some (fst p)) (D @ take r (unflagged S)) @ replicate (r - length (unflagged S)) None,
                map (\<lambda>p. Some (snd p)) (D @ take r (unflagged S)) @ replicate (r - length (unflagged S)) None)"
  using assms
proof (induction S arbitrary: A D r)
  case Nil
  show ?case by (subst removeLoop.simps) simp
next
  case (Cons s S)
  show ?case
  proof (cases r)
    case 0
    with Cons.prems show ?thesis by (subst removeLoop.simps) simp
  next
    case (Suc r')
    with Cons.prems have bound: "length D < length A + length (s # S) - nd" by simp
    show ?thesis
    proof (cases "fst s = - DBL_MAX")
      case True
      have "removeLoop (length A + length (s # S)) nd (map fst (A @ s # S)) (map snd (A @ s # S))
              (length A) (length D)
              (map (\<lambda>p. Some (fst p)) D @ replicate r None, map (\<lambda>p. Some (snd p)) D @ replicate r None)
          = removeLoop (length (A @ [s]) + length S) nd (map fst ((A @ [s]) @ S)) (map snd ((A @ [s]) @ S))
              (length (A @ [s])) (length D)
              (map (\<lambda>p. Some (fst p)) D @ replicate r None, map (\<lambda>p. Some (snd p)) D @ replicate r None)"
        using bound True by (subst removeLoop.simps) (simp add: coeff_def nth_append)
      also have "\<dots> = Inr (map (\<lambda>p. Some (fst p)) (D @ take r (unflagged S)) @ replicate (r - length (unflagged S)) None,
                map (\<lambda>p. Some (snd p)) (D @ take r (unflagged S)) @ replicate (r - length (unflagged S)) None)"
        using Cons.prems by (intro Cons.IH) simp
      finally show ?thesis using True by simp
    next
      case False
      have "removeLoop (length A + length (s # S)) nd (map fst (A @ s # S)) (map snd (A @ s # S))
              (length A) (length D)
              (map (\<lambda>p. Some (fst p)) D @ replicate r None, map (\<lambda>p. Some (snd p)) D @ replicate r None)
          = removeLoop (length (A @ [s]) + length S) nd (map fst ((A @ [s]) @ S)) (map snd ((A @ [s]) @ S))
              (length (A @ [s])) (length (D @ [s]))
              (map (\<lambda>p. Some (fst p)) (D @ [s]) @ replicate r' None,
               map (\<lambda>p. Some (snd p)) (D @ [s]) @ replicate r' None)"
        using bound False Suc
        by (subst removeLoop.simps)
           (simp add: coeff_def assign_def nth_append list_update_append)
      also have "\<dots> = Inr (map (\<lambda>p. Some (fst p)) ((D @ [s]) @ take r' (unflagged S)) @ replicate (r' - length (unflagged S)) None,
                map (\<lambda>p. Some (snd p)) ((D @ [s]) @ take r' (unflagged S)) @ replicate (r' - length (unflagged S)) None)"
        using Cons.prems Suc by (intro Cons.IH) simp
      finally show ?thesis using False Suc by simp
    qed
  qed
qed

lemma duplicates_flagged:
  "length (unflagged (mergeList ps)) + duplicates ps = length (unflagged ps)"
proof (induction ps rule: mergeList.induct)
  case 1
  show ?case by simp
next
  case (2 p ps)
  have split: "length (unflagged (flagAll x ps)) + length (filter (\<lambda>q. fst q = x) ps)
                = length (unflagged ps)" if "x \<noteq> - DBL_MAX" for x
    using that by (induction ps) (auto simp: flagAll_def)
  show ?case
  proof (cases "fst p = - DBL_MAX")
    case True
    with "2.IH"(1) show ?thesis by simp
  next
    case False
    with "2.IH"(2) split [of "fst p"] show ?thesis by simp
  qed
qed

lemma duplicates_0: "duplicates ps = 0 \<Longrightarrow> mergeList ps = ps"
proof (induction ps rule: mergeList.induct)
  case 1
  show ?case by simp
next
  case (2 p ps)
  show ?case
  proof (cases "fst p = - DBL_MAX")
    case True
    with 2 show ?thesis by simp
  next
    case False
    with "2.prems" have none: "filter (\<lambda>q. fst q = fst p) ps = []" and d: "duplicates (flagAll (fst p) ps) = 0"
      by simp_all
    from none have same: "flagAll (fst p) ps = ps"
      unfolding flagAll_def by (induction ps) (auto split: if_splits)
    from none have "massOf (fst p) ps = 0" by (simp add: massOf_def)
    with False "2.IH"(2) d same show ?thesis by simp
  qed
qed


lemma length_mergeList [simp]: "length (mergeList ps) = length ps"
  by (induction ps rule: mergeList.induct) simp_all

lemma length_unflagged_le: "length (unflagged ps) \<le> length ps"
  by (simp add: unflagged_def)

lemma unflagged_all: "length (unflagged ps) = length ps \<longleftrightarrow> - DBL_MAX \<notin> fst ` set ps"
proof (induction ps)
  case Nil
  show ?case by simp
next
  case (Cons p ps)
  have "length (unflagged ps) \<le> length ps" by (rule length_unflagged_le)
  with Cons show ?case by auto
qed

lemma contents_written:
  "contents before (map (\<lambda>p. Some (f p)) K @ replicate g None)
     = map f K @ map before [length K..<length K + g]"
  by (rule nth_equalityI) (auto simp: contents_def held_def nth_append)

lemma contents_Some: "contents before (map Some xs) = xs"
  by (rule nth_equalityI) (auto simp: contents_def held_def)

lemma mergeOuter_zip:
  assumes "length pc = N" "length md = N"
  shows "mergeOuter N 0 (pc, md, 0)
         = Inr (map fst (mergeList (zip pc md)),
                map snd (mergeList (zip pc md)),
                duplicates (zip pc md))"
  using mergeOuter_append [of "[]" "zip pc md" 0] assms
  by simp

lemma removeBadPoints_mergeList:
  assumes "length ps = N" "0 < duplicates ps"
  shows "removeBadPoints N (map fst (mergeList ps), map snd (mergeList ps), duplicates ps)
         = Inr (map (\<lambda>p. Some (fst p)) (unflagged (mergeList ps))
                  @ replicate (N - length (unflagged ps)) None,
                map (\<lambda>p. Some (snd p)) (unflagged (mergeList ps))
                  @ replicate (N - length (unflagged ps)) None)"
proof -
  let ?K = "unflagged (mergeList ps)"
  let ?r = "N - duplicates ps"
  have count: "length ?K + duplicates ps = length (unflagged ps)" by (rule duplicates_flagged)
  have le: "length (unflagged ps) \<le> N" using assms(1) length_unflagged_le [of ps] by simp
  from count le have take: "take ?r ?K = ?K" by simp
  from count le have rest: "?r - length ?K = N - length (unflagged ps)" by simp
  have "length ([]::(real \<times> real) list) + ?r = length ([]::(real \<times> real) list) + length (mergeList ps) - duplicates ps"
    by (simp add: assms(1))
  from removeLoop_append [where D = "[]" and A = "[]", OF this]
  have "removeLoop N (duplicates ps) (map fst (mergeList ps)) (map snd (mergeList ps)) 0 0
          (replicate ?r None, replicate ?r None)
        = Inr (map (\<lambda>p. Some (fst p)) (take ?r ?K) @ replicate (?r - length ?K) None,
               map (\<lambda>p. Some (snd p)) (take ?r ?K) @ replicate (?r - length ?K) None)"
    by (simp add: assms(1))
  then show ?thesis
    using assms count by (simp add: removeBadPoints_def take rest add.commute)
qed

lemma marginalize_eq:
  assumes "length pc = N" "length md = N"
  shows "marginalize u N pc md =
     (if duplicates (zip pc md) = 0
      then Inr (pc, md)
      else Inr (map fst (unflagged (mergeList (zip pc md)))
                  @ map (parameterComponentCopy0 u)
                      [length (unflagged (mergeList (zip pc md)))..<
                       length (unflagged (mergeList (zip pc md)))
                         + (N - length (unflagged (zip pc md)))],
                map snd (unflagged (mergeList (zip pc md)))
                  @ map (marginalDistributionCopy0 u)
                      [length (unflagged (mergeList (zip pc md)))..<
                       length (unflagged (mergeList (zip pc md)))
                         + (N - length (unflagged (zip pc md)))]))"
proof -
  let ?ps = "zip pc md"
  have len: "length ?ps = N" using assms by simp
  have fs: "map fst ?ps = pc" "map snd ?ps = md"
    using assms by simp_all
  have outer: "mergeOuter N 0 (pc, md, 0)
         = Inr (map fst (mergeList ?ps), map snd (mergeList ?ps), duplicates ?ps)"
    using assms by (rule mergeOuter_zip)
  show ?thesis
  proof (cases "duplicates ?ps = 0")
    case True
    then have "mergeList ?ps = ?ps" by (rule duplicates_0)
    with True fs show ?thesis
      by (simp add: marginalize_def outer andThen_def removeBadPoints_def contents_Some)
  next
    case False
    then have pos: "0 < duplicates ?ps" by simp
    show ?thesis
      using False
      by (simp add: marginalize_def outer andThen_def removeBadPoints_mergeList [OF len pos]
            contents_written)
  qed
qed

section \<open>Properties of the merged points\<close>

lemma unflagged_flagAll:
  "x \<noteq> - DBL_MAX \<Longrightarrow> unflagged (flagAll x ps) = filter (\<lambda>q. fst q \<noteq> x) (unflagged ps)"
  by (induction ps) (auto simp: flagAll_def)

lemma massOf_unflagged: "x \<noteq> - DBL_MAX \<Longrightarrow> massOf x (unflagged ps) = massOf x ps"
  by (induction ps) (auto simp: massOf_def)

lemma massOf_filter_other:
  "y \<noteq> x \<Longrightarrow> massOf y (filter (\<lambda>q. fst q \<noteq> x) ps) = massOf y ps"
  by (induction ps) (auto simp: massOf_def)

lemma massOf_Cons: "massOf x (p # ps) = (if fst p = x then snd p + massOf x ps else massOf x ps)"
  by (simp add: massOf_def)

lemma set_merged: "fst ` set (unflagged (mergeList ps)) = fst ` set (unflagged ps)"
proof (induction ps rule: mergeList.induct)
  case 1
  show ?case by simp
next
  case (2 p ps)
  show ?case
  proof (cases "fst p = - DBL_MAX")
    case True
    with "2.IH"(1) show ?thesis by simp
  next
    case False
    from "2.IH"(2) [OF False]
    have "fst ` set (unflagged (mergeList (flagAll (fst p) ps)))
            = fst ` set (filter (\<lambda>q. fst q \<noteq> fst p) (unflagged ps))"
      by (simp add: unflagged_flagAll [OF False])
    with False show ?thesis by auto
  qed
qed

lemma distinct_merged: "distinct (map fst (unflagged (mergeList ps)))"
proof (induction ps rule: mergeList.induct)
  case 1
  show ?case by simp
next
  case (2 p ps)
  show ?case
  proof (cases "fst p = - DBL_MAX")
    case True
    with "2.IH"(1) show ?thesis by simp
  next
    case False
    have "fst ` set (unflagged (mergeList (flagAll (fst p) ps)))
            = fst ` set (filter (\<lambda>q. fst q \<noteq> fst p) (unflagged ps))"
      by (simp add: set_merged unflagged_flagAll [OF False])
    then have "fst p \<notin> fst ` set (unflagged (mergeList (flagAll (fst p) ps)))" by auto
    with False "2.IH"(2) show ?thesis by simp
  qed
qed

lemma mass_merged:
  "q \<in> set (unflagged (mergeList ps)) \<Longrightarrow> snd q = massOf (fst q) ps"
proof (induction ps rule: mergeList.induct)
  case 1
  then show ?case by simp
next
  case (2 p ps)
  show ?case
  proof (cases "fst p = - DBL_MAX")
    case True
    from "2.prems" True have q: "q \<in> set (unflagged (mergeList ps))" by simp
    then have "fst q \<noteq> - DBL_MAX" by (simp add: unflagged_def)
    with True "2.IH"(1) q show ?thesis by (simp add: massOf_Cons)
  next
    case False
    from "2.prems" False
    consider "q = (fst p, snd p + massOf (fst p) ps)"
      | "q \<in> set (unflagged (mergeList (flagAll (fst p) ps)))" by auto
    then show ?thesis
    proof cases
      case 1
      then show ?thesis by (simp add: massOf_Cons)
    next
      case 2
      then have nf: "fst q \<noteq> - DBL_MAX" by (simp add: unflagged_def)
      from 2 have "fst q \<in> fst ` set (unflagged (mergeList (flagAll (fst p) ps)))" by (rule imageI)
      then have "fst q \<in> fst ` set (filter (\<lambda>q. fst q \<noteq> fst p) (unflagged ps))"
        by (simp add: set_merged unflagged_flagAll [OF False])
      then have ne: "fst q \<noteq> fst p" by auto
      from "2.IH"(2) [OF False 2]
      have "snd q = massOf (fst q) (flagAll (fst p) ps)" .
      also have "\<dots> = massOf (fst q) (unflagged (flagAll (fst p) ps))"
        by (simp add: massOf_unflagged [OF nf])
      also have "\<dots> = massOf (fst q) (unflagged ps)"
        by (simp add: unflagged_flagAll [OF False] massOf_filter_other [OF ne])
      also have "\<dots> = massOf (fst q) ps" by (rule massOf_unflagged [OF nf])
      finally show ?thesis using ne by (simp add: massOf_Cons)
    qed
  qed
qed

lemma sum_list_partition:
  "sum_list (map f (filter P xs)) + sum_list (map f (filter (\<lambda>x. \<not> P x) xs)) = sum_list (map f xs)"
  for f :: "'a \<Rightarrow> real"
  by (induction xs) simp_all

lemma weighted_merged:
  "sum_list (map (\<lambda>q. g (fst q) * snd q) (unflagged (mergeList ps)))
     = sum_list (map (\<lambda>q. g (fst q) * snd q) (unflagged ps))"
proof (induction ps rule: mergeList.induct)
  case 1
  show ?case by simp
next
  case (2 p ps)
  show ?case
  proof (cases "fst p = - DBL_MAX")
    case True
    with "2.IH"(1) show ?thesis by simp
  next
    case False
    let ?x = "fst p"
    let ?f = "\<lambda>q. g (fst q) * snd q"
    have same: "sum_list (map ?f (filter (\<lambda>q. fst q = ?x) qs)) = g ?x * massOf ?x qs" for qs
      by (induction qs) (simp_all add: massOf_def algebra_simps)
    have "sum_list (map ?f (unflagged (mergeList (p # ps))))
           = g ?x * (snd p + massOf ?x ps) + sum_list (map ?f (unflagged (mergeList (flagAll ?x ps))))"
      using False by simp
    also have "\<dots> = g ?x * snd p + g ?x * massOf ?x (unflagged ps)
                      + sum_list (map ?f (filter (\<lambda>q. fst q \<noteq> ?x) (unflagged ps)))"
      using "2.IH"(2) [OF False]
      by (simp add: unflagged_flagAll [OF False] massOf_unflagged [OF False] algebra_simps)
    also have "\<dots> = g ?x * snd p + (sum_list (map ?f (filter (\<lambda>q. fst q = ?x) (unflagged ps)))
                      + sum_list (map ?f (filter (\<lambda>q. \<not> fst q = ?x) (unflagged ps))))"
      by (simp add: same)
    also have "\<dots> = g ?x * snd p + sum_list (map ?f (unflagged ps))"
      by (simp only: sum_list_partition)
    finally show ?thesis using False by simp
  qed
qed


section \<open>The flag value\<close>

lemma DBL_MAX_ge: "1 \<le> DBL_MAX"
proof -
  have "(1::real) \<le> 2 ^ 1023" by (rule one_le_power) simp
  moreover have "(1::real) \<le> 2 - 1 / 2 ^ 52" by (simp add: field_simps)
  ultimately have "1 * 1 \<le> (2 - 1 / 2 ^ 52) * (2::real) ^ 1023"
    by (intro mult_mono) simp_all
  then show ?thesis by (simp add: DBL_MAX_def)
qed

lemma not_flag:
  "- 1 < x \<Longrightarrow> (x = - DBL_MAX) = False"
  "- 1 < x \<Longrightarrow> (DBL_MAX = - x) = False"
  "- 1 < x \<Longrightarrow> (- DBL_MAX = x) = False"
  "- 1 < x \<Longrightarrow> (- DBL_MAX \<le> x) = True"
  "- 1 < x \<Longrightarrow> (x \<le> - DBL_MAX) = False"
  using DBL_MAX_ge by auto

lemmas eval_simps = parameterEstimationRow_def marginalize_def andThen_def coeff_def assign_def
  mergeBody_def removeBadPoints_def held_def contents_def estimates_def
  cwiseProductSum_def maxCoeff_def minCoeff_def credibleBody_def not_flag
  mergeInner.simps mergeOuter.simps removeLoop.simps

lemmas sampler_simps = parameterEstimation_def Results_posteriorProbability_def posteriorProbability_def
  samplerOf_def estimationBody_def row_def sortElements_def Let_def





section \<open>Ties are merged\<close>

lemma unflagged_id: "- DBL_MAX \<notin> fst ` set ps \<Longrightarrow> unflagged ps = ps"
  by (induction ps) auto

lemma marginalize_unflagged:
  assumes "length pc = N" and "length md = N" and "- DBL_MAX \<notin> set pc"
  shows "marginalize u N pc md =
           Inr (map fst (unflagged (mergeList (zip pc md))),
                map snd (unflagged (mergeList (zip pc md))))"
proof -
  let ?ps = "zip pc md"
  have fs: "map fst ?ps = pc" "map snd ?ps = md" using assms by simp_all
  from assms(3) have "- DBL_MAX \<notin> set (map fst ?ps)" by (simp only: fs) simp
  then have id: "unflagged ?ps = ?ps" by (intro unflagged_id) simp
  have len: "length ?ps = N" using assms by simp
  show ?thesis
  proof (cases "duplicates ?ps = 0")
    case True
    then have "mergeList ?ps = ?ps" by (rule duplicates_0)
    with True fs id show ?thesis by (simp add: marginalize_eq [OF assms(1,2)])
  next
    case False
    then show ?thesis using assms(1,2) by (simp add: marginalize_eq [OF assms(1,2)] id)
  qed
qed

lemma sum_list_insort_key:
  "sum_list (map g (insort_key f x xs)) = g x + sum_list (map g xs)" for g :: "'a \<Rightarrow> real"
  by (induction xs) simp_all

lemma sum_list_sort_key:
  "sum_list (map g (sort_key f xs)) = sum_list (map g xs)" for g :: "'a \<Rightarrow> real"
  by (induction xs) (simp_all add: sum_list_insort_key)

lemma massOf_sort_key: "massOf x (sort_key f ps) = massOf x ps"
  by (simp add: massOf_def filter_sort sum_list_sort_key)

lemma sortElements_zip:
  "zip (fst (sortElements a b)) (snd (sortElements a b)) = sort_key fst (zip a b)"
  by (simp add: sortElements_def Let_def zip_map_fst_snd)

lemma sortElements_fst: "fst (sortElements a b) = map fst (sort_key fst (zip a b))"
  by (simp add: sortElements_def Let_def)

lemma sortElements_snd: "snd (sortElements a b) = map snd (sort_key fst (zip a b))"
  by (simp add: sortElements_def Let_def)

lemma sortElements_length:
  "length a = length b \<Longrightarrow> length (fst (sortElements a b)) = length a"
  "length a = length b \<Longrightarrow> length (snd (sortElements a b)) = length a"
  by (simp_all add: sortElements_def Let_def)

lemma sortElements_set: "length a = length b \<Longrightarrow> set (fst (sortElements a b)) = set a"
proof -
  assume l: "length a = length b"
  have "set (fst (sortElements a b)) = fst ` set (zip a b)"
    by (simp add: sortElements_fst)
  also have "\<dots> = set (map fst (zip a b))" by simp
  also have "\<dots> = set a" using l by simp
  finally show ?thesis .
qed

lemma length_row [simp]: "length (row a i) = cols a"
  by (simp add: row_def)

lemma length_posteriorProbability [simp]:
  "length (posteriorProbability s) = length (logWeightOfPosteriorSample s)"
  by (simp add: posteriorProbability_def Let_def)

text \<open>
  C4, as amended.  When no value of the parameter equals -DBL_MAX (and the sampler holds
  one weight for each posterior point), the merging and the removal leave pairwise
  distinct values, the values of the posterior points; each carries the sum of the
  posterior probabilities of the points that share it; and the total probability is that
  of the posterior sample.
\<close>

theorem ties_merged:
  assumes "length (logWeightOfPosteriorSample s) = cols (posteriorSample s)"
    and "- DBL_MAX \<notin> set (row (posteriorSample s) i)"
  shows "\<exists>pc' md'.
           mergedMarginal u s i = Inr (pc', md') \<and> length md' = length pc' \<and>
           distinct pc' \<and> set pc' = set (row (posteriorSample s) i) \<and>
           (\<forall>n<length pc'.
              md' ! n = massOf (pc' ! n) (zip (row (posteriorSample s) i) (posteriorProbability s))) \<and>
           sum_list md' = sum_list (posteriorProbability s)"
proof -
  let ?a = "row (posteriorSample s) i"
  let ?b = "posteriorProbability s"
  let ?N = "cols (posteriorSample s)"
  let ?pc = "fst (sortElements ?a ?b)"
  let ?md = "snd (sortElements ?a ?b)"
  let ?ps = "sort_key fst (zip ?a ?b)"
  let ?K = "unflagged (mergeList ?ps)"
  have lab: "length ?a = length ?b" using assms(1) by simp
  have l: "length ?pc = ?N" "length ?md = ?N"
    using sortElements_length [OF lab] by simp_all
  have noflag: "- DBL_MAX \<notin> set ?pc" using assms(2) sortElements_set [OF lab] by simp
  then have nf: "- DBL_MAX \<notin> fst ` set ?ps" by (simp add: sortElements_fst)
  have "marginalize u ?N ?pc ?md = Inr (map fst (unflagged (mergeList (zip ?pc ?md))),
                                       map snd (unflagged (mergeList (zip ?pc ?md))))"
    using l noflag by (intro marginalize_unflagged) simp_all
  then have m: "mergedMarginal u s i = Inr (map fst ?K, map snd ?K)"
    by (simp add: mergedMarginal_def Let_def sortElements_zip)
  have d: "distinct (map fst ?K)" by (rule distinct_merged)
  have "set (map fst ?K) = fst ` set (unflagged ?ps)" using set_merged [of ?ps] by simp
  also have "\<dots> = fst ` set ?ps" using nf by (simp add: unflagged_id)
  also have "\<dots> = set ?pc" by (simp add: sortElements_fst)
  also have "\<dots> = set ?a" by (rule sortElements_set [OF lab])
  finally have st: "set (map fst ?K) = set ?a" .
  have mass: "map snd ?K ! n = massOf (map fst ?K ! n) (zip ?a ?b)" if "n < length (map fst ?K)" for n
  proof -
    from that have "?K ! n \<in> set ?K" by simp
    then have "snd (?K ! n) = massOf (fst (?K ! n)) ?ps" by (rule mass_merged)
    with that show ?thesis by (simp add: massOf_sort_key)
  qed
  have "sum_list (map snd ?K) = sum_list (map snd (unflagged ?ps))"
    using weighted_merged [of "\<lambda>x. 1" ?ps] by simp
  also have "\<dots> = sum_list (map snd ?ps)" using nf by (simp add: unflagged_id)
  also have "\<dots> = sum_list (map snd (zip ?a ?b))" by (rule sum_list_sort_key)
  also have "\<dots> = sum_list ?b" using lab by simp
  finally have total: "sum_list (map snd ?K) = sum_list ?b" .
  from m d st mass total show ?thesis
    by (intro exI [of _ "map fst ?K"] exI [of _ "map snd ?K"]) simp
qed

theorem ties_merged_witness:
  "mergedMarginal (unassignedOf 0) (samplerOf [[2, 1, 2, 1]] [1 / 2, 1 / 4, 1 / 8, 1 / 8]) 0
     = Inr ([1, 2], [3 / 8, 5 / 8])"
proof -
  let ?s = "samplerOf [[2, 1, 2, 1]] [1 / 2, 1 / 4, 1 / 8, 1 / 8]"
  have e: "mergedMarginal (unassignedOf 0) ?s 0 = Inr ([1, 2], [3 / 8, 5 / 8])"
    by (simp add: mergedMarginal_def sampler_simps eval_simps)
  have "length (logWeightOfPosteriorSample ?s) = cols (posteriorSample ?s)"
    by (simp add: samplerOf_def)
  moreover have "- DBL_MAX \<notin> set (row (posteriorSample ?s) 0)"
    by (simp add: samplerOf_def row_def not_flag)
  ultimately obtain pc' md' where
    "mergedMarginal (unassignedOf 0) ?s 0 = Inr (pc', md')" "distinct pc'"
    using ties_merged [of ?s 0 "unassignedOf 0"] by blast
  with e show ?thesis by simp
qed

text \<open>
  C4 as stated fails: two posterior points whose value is -DBL_MAX itself are not merged,
  so the values that are left are not pairwise distinct.
\<close>

theorem ties_merged_counterexample:
  "mergedMarginal (unassignedOf 0) (samplerOf [[- DBL_MAX, - DBL_MAX]] [1 / 2, 1 / 2]) 0
     = Inr ([- DBL_MAX, - DBL_MAX], [1 / 2, 1 / 2]) \<and>
   \<not> distinct [- DBL_MAX, - DBL_MAX]"
  by (simp add: mergedMarginal_def sampler_simps eval_simps)

section \<open>The loop over the free parameters\<close>

declare estimationLoop.simps [simp del]


lemma andThen_Inr:
  "andThen m f = Inr r \<longleftrightarrow> (\<exists>v. m = Inr v \<and> f v = Inr r)"
  by (cases m) (simp_all add: andThen_def)

lemma estimationBody_Inr:
  assumes "estimationBody us p Ni i st = Inr st'"
  shows "nestedSampler st' = nestedSampler st \<and>
         posteriorDistribution st' = posteriorDistribution st \<and>
         i < length (parameterEstimates st) \<and>
         (\<exists>est. parameterEstimationRow (us i) p Ni
                  (fst (sortElements (row (posteriorSample (nestedSampler st)) i) (posteriorDistribution st)))
                  (snd (sortElements (row (posteriorSample (nestedSampler st)) i) (posteriorDistribution st)))
                = Inr est \<and>
                parameterEstimates st' = (parameterEstimates st)[i := est])"
  using assms
  by (auto simp: estimationBody_def Let_def andThen_Inr assign_def split: if_splits)

lemma estimationLoop_Inr:
  assumes "estimationLoop us p Nd Ni i st = Inr st'"
  shows "nestedSampler st' = nestedSampler st \<and>
         posteriorDistribution st' = posteriorDistribution st \<and>
         length (parameterEstimates st') = length (parameterEstimates st) \<and>
         (\<forall>k<i. parameterEstimates st' ! k = parameterEstimates st ! k) \<and>
         (\<forall>k<Nd. i \<le> k \<longrightarrow>
            parameterEstimationRow (us k) p Ni
              (fst (sortElements (row (posteriorSample (nestedSampler st)) k) (posteriorDistribution st)))
              (snd (sortElements (row (posteriorSample (nestedSampler st)) k) (posteriorDistribution st)))
            = Inr (parameterEstimates st' ! k))"
  using assms
proof (induction us p Nd Ni i st rule: estimationLoop.induct)
  case (1 us p Nd Ni i st)
  show ?case
  proof (cases "i < Nd")
    case False
    with "1.prems" show ?thesis by (simp add: estimationLoop.simps [of us p Nd Ni i st])
  next
    case True
    with "1.prems" obtain st1 where
      body: "estimationBody us p Ni i st = Inr st1" and
      rest: "estimationLoop us p Nd Ni (i + 1) st1 = Inr st'"
      by (auto simp: estimationLoop.simps [of us p Nd Ni i st] split: sum.splits)
    from estimationBody_Inr [OF body] obtain est where
      b: "nestedSampler st1 = nestedSampler st" "posteriorDistribution st1 = posteriorDistribution st"
         "i < length (parameterEstimates st)"
         "parameterEstimationRow (us i) p Ni
            (fst (sortElements (row (posteriorSample (nestedSampler st)) i) (posteriorDistribution st)))
            (snd (sortElements (row (posteriorSample (nestedSampler st)) i) (posteriorDistribution st)))
          = Inr est"
         "parameterEstimates st1 = (parameterEstimates st)[i := est]"
      by blast
    note ih = "1.IH" [OF True body rest]
    from ih b have keep: "parameterEstimates st' ! i = est" by simp
    have "parameterEstimationRow (us k) p Ni
              (fst (sortElements (row (posteriorSample (nestedSampler st)) k) (posteriorDistribution st)))
              (snd (sortElements (row (posteriorSample (nestedSampler st)) k) (posteriorDistribution st)))
            = Inr (parameterEstimates st' ! k)" if "k < Nd" "i \<le> k" for k
    proof (cases "k = i")
      case True
      with b(4) keep show ?thesis by simp
    next
      case False
      with that have "i + 1 \<le> k" by simp
      with ih that b show ?thesis by simp
    qed
    moreover have "parameterEstimates st' ! k = parameterEstimates st ! k" if "k < i" for k
      using ih b that by simp
    ultimately show ?thesis using ih b by simp
  qed
qed

lemma parameterEstimation_Inr:
  assumes "parameterEstimation us p s = Inr (est, s')"
  shows "s' = s \<and> length est = rows (posteriorSample s) \<and>
         (\<forall>i<rows (posteriorSample s).
            \<exists>pc' md'. mergedMarginal (us i) s i = Inr (pc', md') \<and>
              estimates (us i) p pc' md' = Inr (est ! i))"
proof -
  let ?st = "\<lparr>nestedSampler = s, posteriorDistribution = posteriorProbability s,
              parameterComponent = [], marginalDistribution = [],
              parameterEstimates = replicate (rows (posteriorSample s)) []\<rparr>"
  from assms obtain st' where
    loop: "estimationLoop us p (rows (posteriorSample s)) (cols (posteriorSample s)) 0 ?st = Inr st'"
    and r: "est = parameterEstimates st'" "s' = nestedSampler st'"
    by (auto simp: parameterEstimation_def Let_def Results_posteriorProbability_def andThen_Inr)
  note l = estimationLoop_Inr [OF loop]
  have "\<exists>pc' md'. mergedMarginal (us i) s i = Inr (pc', md') \<and>
              estimates (us i) p pc' md' = Inr (est ! i)"
    if "i < rows (posteriorSample s)" for i
  proof -
    from l that have "parameterEstimationRow (us i) p (cols (posteriorSample s))
              (fst (sortElements (row (posteriorSample s) i) (posteriorProbability s)))
              (snd (sortElements (row (posteriorSample s) i) (posteriorProbability s)))
            = Inr (est ! i)" by (simp add: r)
    then show ?thesis
      by (auto simp: parameterEstimationRow_def mergedMarginal_def Let_def andThen_Inr)
  qed
  with l r show ?thesis by simp
qed

section \<open>The blocks of the loop body\<close>

declare medianLoop.simps [simp del] copyLeft.simps [simp del] sumRange.simps [simp del]
  credibleLoop.simps [simp del]

lemma coeff_Inr: "coeff xs i = Inr v \<longleftrightarrow> i < length xs \<and> v = xs ! i"
  by (auto simp: coeff_def)

lemma maxVisit_first:
  assumes "maxVisit (drop i xs) i (b, bi) = (v, m)"
    and "bi < i" and "i \<le> length xs" and "b = xs ! bi"
    and "\<forall>j<i. xs ! j \<le> b" and "\<forall>j<bi. xs ! j < b"
  shows "m < length xs \<and> v = xs ! m \<and> (\<forall>j<length xs. xs ! j \<le> v) \<and> (\<forall>j<m. xs ! j < v)"
  using assms
proof (induction "length xs - i" arbitrary: i b bi)
  case 0
  then have "drop i xs = []" by simp
  with 0 show ?case by auto
next
  case (Suc n)
  then have i: "i < length xs" by simp
  then have d: "drop i xs = xs ! i # drop (Suc i) xs" by (simp add: Cons_nth_drop_Suc)
  from Suc.hyps(2) have n: "n = length xs - Suc i" by simp
  show ?case
  proof (cases "xs ! i > b")
    case True
    with Suc.prems(1) have call: "maxVisit (drop (Suc i) xs) (Suc i) (xs ! i, i) = (v, m)"
      by (simp add: d)
    have le: "\<forall>j<Suc i. xs ! j \<le> xs ! i"
      using Suc.prems(5) True by (auto simp: less_Suc_eq intro: order_trans less_imp_le)
    have lt: "\<forall>j<i. xs ! j < xs ! i"
      using Suc.prems(5) True by (auto intro: le_less_trans)
    have "m < length xs \<and> v = xs ! m \<and> (\<forall>j<length xs. xs ! j \<le> v) \<and> (\<forall>j<m. xs ! j < v)"
      using i by (intro Suc.hyps(1) [OF n call _ _ _ le lt]) simp_all
    then show ?thesis .
  next
    case False
    with Suc.prems(1) have call: "maxVisit (drop (Suc i) xs) (Suc i) (b, bi) = (v, m)"
      by (simp add: d)
    have le: "\<forall>j<Suc i. xs ! j \<le> b"
      using Suc.prems(5) False by (auto simp: less_Suc_eq)
    have "m < length xs \<and> v = xs ! m \<and> (\<forall>j<length xs. xs ! j \<le> v) \<and> (\<forall>j<m. xs ! j < v)"
      using i Suc.prems(2) by (intro Suc.hyps(1) [OF n call _ _ Suc.prems(4) le Suc.prems(6)]) simp_all
    then show ?thesis .
  qed
qed

lemma maxCoeff_Inr:
  assumes "maxCoeff xs = Inr (v, m)"
  shows "m < length xs \<and> v = xs ! m \<and> (\<forall>j<length xs. xs ! j \<le> xs ! m) \<and> (\<forall>j<m. xs ! j < xs ! m)"
proof -
  from assms obtain x rest where xs: "xs = x # rest" and v: "maxVisit rest 1 (x, 0) = (v, m)"
    by (auto simp: maxCoeff_def split: list.splits)
  from v have "maxVisit (drop 1 xs) 1 (x, 0) = (v, m)" by (simp add: xs)
  then have "m < length xs \<and> v = xs ! m \<and> (\<forall>j<length xs. xs ! j \<le> v) \<and> (\<forall>j<m. xs ! j < v)"
    by (rule maxVisit_first) (simp_all add: xs)
  then show ?thesis by blast
qed

lemma minVisit_maxVisit:
  "minVisit xs i (b, bi) = (v, m) \<longleftrightarrow> maxVisit (map uminus xs) i (- b, bi) = (- v, m)"
  by (induction xs arbitrary: i b bi) auto

lemma minCoeff_Inr:
  assumes "minCoeff xs = Inr (v, m)"
  shows "m < length xs \<and> v = xs ! m \<and> (\<forall>j<length xs. xs ! m \<le> xs ! j) \<and> (\<forall>j<m. xs ! m < xs ! j)"
proof -
  from assms have "maxCoeff (map uminus xs) = Inr (- v, m)"
    by (auto simp: minCoeff_def maxCoeff_def minVisit_maxVisit split: list.splits)
  from maxCoeff_Inr [OF this] show ?thesis by auto
qed





lemma sumRange_Inr:
  assumes "sumRange md t stop tot = Inr r"
  shows "r = tot + (\<Sum>u = t..stop. md ! u)"
  using assms
proof (induction md t stop tot rule: sumRange.induct)
  case (1 md t stop tot)
  show ?case
  proof (cases "t \<le> stop")
    case False
    then have "sumRange md t stop tot = Inr tot" by (subst sumRange.simps) simp
    with "1.prems" False show ?thesis by simp
  next
    case True
    with "1.prems" have t: "t < length md" and
      call: "sumRange md (t + 1) stop (tot + md ! t) = Inr r"
      by (auto simp: sumRange.simps [of md t stop tot] coeff_def split: if_splits)
    have c: "coeff md t = Inr (md ! t)" using t by (simp add: coeff_def)
    from "1.IH" [OF True c call] have r: "r = tot + md ! t + (\<Sum>u = t + 1..stop. md ! u)" .
    have "md ! t + (\<Sum>u = t + 1..stop. md ! u) = (\<Sum>u = t..stop. md ! u)"
      using True by (simp add: sum.atLeast_Suc_atMost)
    with r show ?thesis by simp
  qed
qed

lemma credibleBody_Inr:
  assumes "credibleBody pc md (take (mx + 1) md) mx h = Inr (t, l, r)" and "mx < length md"
  shows "\<exists>lo\<le>mx. mx + h < length md \<and> mx + h < length pc \<and>
           l = pc ! lo \<and> r = pc ! (mx + h) \<and> t = (\<Sum>u = lo..mx + h. md ! u) \<and>
           (\<forall>j\<le>mx. \<bar>md ! lo - md ! (mx + h)\<bar> \<le> \<bar>md ! j - md ! (mx + h)\<bar>) \<and>
           (\<forall>j<lo. \<bar>md ! lo - md ! (mx + h)\<bar> < \<bar>md ! j - md ! (mx + h)\<bar>)"
proof -
  let ?d = "map (\<lambda>x. \<bar>x - md ! (mx + h)\<bar>) (take (mx + 1) md)"
  from assms(1) obtain v lo where
    b: "mx + h < length md" "mx + h < length pc" and
    mn: "minCoeff ?d = Inr (v, lo)" and
    lo: "lo < length md" "lo < length pc" "l = pc ! lo" "r = pc ! (mx + h)" and
    sr: "sumRange md lo (mx + h) 0 = Inr t"
    by (auto simp: credibleBody_def andThen_Inr coeff_Inr)
  from minCoeff_Inr [OF mn] assms(2) have
    m: "lo \<le> mx" "\<forall>j<length ?d. ?d ! lo \<le> ?d ! j" "\<forall>j<lo. ?d ! lo < ?d ! j"
    by auto
  have len: "length ?d = mx + 1" using assms(2) by simp
  have nth: "?d ! j = \<bar>md ! j - md ! (mx + h)\<bar>" if "j \<le> mx" for j
    using that assms(2) by simp
  have near: "\<bar>md ! lo - md ! (mx + h)\<bar> \<le> \<bar>md ! j - md ! (mx + h)\<bar>" if "j \<le> mx" for j
  proof -
    from that len have "j < length ?d" by simp
    with m(2) have "?d ! lo \<le> ?d ! j" by blast
    with nth [OF that] nth [OF m(1)] show ?thesis by simp
  qed
  have first: "\<bar>md ! lo - md ! (mx + h)\<bar> < \<bar>md ! j - md ! (mx + h)\<bar>" if "j < lo" for j
  proof -
    from that m(3) have "?d ! lo < ?d ! j" by blast
    moreover from that m(1) have "j \<le> mx" by simp
    ultimately show ?thesis using nth [of j] nth [OF m(1)] by simp
  qed
  from sumRange_Inr [OF sr] have "t = (\<Sum>u = lo..mx + h. md ! u)" by simp
  with b lo m(1) near first show ?thesis by blast
qed

lemma credibleLoop_Inr:
  assumes "credibleLoop p pc md left mx tot step L R = Inr (tot', step', L', R')"
  shows "\<not> tot' < p / 100 \<and>
         ((step' = step \<and> tot' = tot \<and> L' = L \<and> R' = R) \<or>
          (step < step' \<and> tot < p / 100 \<and>
           (\<exists>l r. credibleBody pc md left mx (step' - 1) = Inr (tot', l, r) \<and>
                   L' = Some l \<and> R' = Some r) \<and>
           (\<forall>h. step \<le> h \<and> h < step' - 1 \<longrightarrow>
                (\<exists>t l r. credibleBody pc md left mx h = Inr (t, l, r) \<and> t < p / 100))))"
  using assms
proof (induction p pc md left mx tot step L R rule: credibleLoop.induct)
  case (1 p pc md left mx tot step L R)
  show ?case
  proof (cases "tot < p / 100")
    case False
    then have "credibleLoop p pc md left mx tot step L R = Inr (tot, step, L, R)"
      by (subst credibleLoop.simps) simp
    with "1.prems" False show ?thesis by simp
  next
    case True
    from True "1.prems" obtain found where
      body: "credibleBody pc md left mx step = Inr found" and
      call: "credibleLoop p pc md left mx (fst found) (step + 1)
               (Some (fst (snd found))) (Some (snd (snd found))) = Inr (tot', step', L', R')"
      by (subst (asm) credibleLoop.simps) (auto split: sum.splits)
    note ih = "1.IH" [OF True body call]
    from ih have fin: "\<not> tot' < p / 100" by simp
    from ih consider
      (stop) "step' = step + 1" "tot' = fst found" "L' = Some (fst (snd found))"
             "R' = Some (snd (snd found))"
    | (more) "step + 1 < step'"
        "\<exists>l r. credibleBody pc md left mx (step' - 1) = Inr (tot', l, r) \<and>
               L' = Some l \<and> R' = Some r"
        "\<forall>h. step + 1 \<le> h \<and> h < step' - 1 \<longrightarrow>
             (\<exists>t l r. credibleBody pc md left mx h = Inr (t, l, r) \<and> t < p / 100)"
      by blast
    then show ?thesis
    proof cases
      case stop
      with body have "credibleBody pc md left mx (step' - 1)
                        = Inr (tot', fst (snd found), snd (snd found))" by simp
      with stop fin True show ?thesis by auto
    next
      case more
      have "\<exists>t l r. credibleBody pc md left mx h = Inr (t, l, r) \<and> t < p / 100"
        if "step \<le> h" "h < step' - 1" for h
      proof (cases "h = step")
        case True
        from call more(1) ih have "fst found < p / 100"
          by (subst (asm) credibleLoop.simps) (auto split: if_splits)
        with body True show ?thesis by (cases found) auto
      next
        case False
        with that more(3) show ?thesis by simp
      qed
      with more fin True show ?thesis by simp
    qed
  qed
qed












section \<open>The estimates\<close>








text \<open>
  Examples.  A sample with two posterior points of one value, at the level 68.27, for
  which the loop of the credible interval is entered, and at the level 50, for which it
  is not; and a sample with a posterior point whose value is -DBL_MAX beside two points
  of one value, for two contents of the storage.
\<close>

lemmas run_simps = estimationLoop.simps medianLoop.simps copyLeft.simps sumRange.simps
  credibleLoop.simps

lemma ties_estimation:
  "parameterEstimation us (6827 / 100) (samplerOf [[2, 1, 3, 2]] [1 / 20, 9 / 20, 9 / 20, 1 / 20])
     = Inr ([[2, 2, 1, 0, 2]], samplerOf [[2, 1, 3, 2]] [1 / 20, 9 / 20, 9 / 20, 1 / 20])"
  by (simp add: sampler_simps eval_simps run_simps)

















text \<open>
  C1 fails on the code.  The comment of the function and the header of the summary name
  the last two columns the shortest credible interval.  For the merged values 0, 1, 2, 3
  with probabilities 0.05, 0.46, 0.47, 0.02 and the level 68.27 the mode is 2 and the
  result has the offsets 2 and 1, those of the interval from 0 to 3, of width 3, whatever
  the storage held; the interval from 1 to 2 contains the mode, has probability 0.93 and
  width 1.  At the level 50 the loop of the credible interval starts from the cumulative
  probability 0.51 that the median loop has left and is not entered: the offsets are
  computed from limits that no statement has assigned, 2 and -2 when their storage held
  0, -3 and 3 when it held 5.
\<close>

theorem credible_interval_not_shortest:
  "parameterEstimation us (6827 / 100) (samplerOf [[0, 1, 2, 3]] [1 / 20, 23 / 50, 47 / 100, 1 / 50])
     = Inr ([[73 / 50, 1, 2, 2, 1]], samplerOf [[0, 1, 2, 3]] [1 / 20, 23 / 50, 47 / 100, 1 / 50]) \<and>
   mergedMarginal u (samplerOf [[0, 1, 2, 3]] [1 / 20, 23 / 50, 47 / 100, 1 / 50]) 0
     = Inr ([0, 1, 2, 3], [1 / 20, 23 / 50, 47 / 100, 1 / 50]) \<and>
   maxCoeff [1 / 20, 23 / 50, 47 / 100, 1 / 50] = Inr (47 / 100, 2) \<and>
   credibleInterval (6827 / 100) [0, 1, 2, 3] [1 / 20, 23 / 50, 47 / 100, 1 / 50] 2 1 2 \<and>
   [0, 1, 2, 3 :: real] ! 2 - [0, 1, 2, 3] ! 1 < 2 + 1 \<and>
   \<not> shortestCredibleInterval (6827 / 100) [0, 1, 2, 3] [1 / 20, 23 / 50, 47 / 100, 1 / 50] 2 0 3 \<and>
   medianLoop [0, 1, 2, 3] [1 / 20, 23 / 50, 47 / 100, 1 / 50] None 0 0
     = Inr (Some 1, 51 / 100, 2) \<and>
   credibleLoop 50 [0, 1, 2, 3] [1 / 20, 23 / 50, 47 / 100, 1 / 50]
       [1 / 20, 23 / 50, 47 / 100] 2 (51 / 100) 1 None None
     = Inr (51 / 100, 1, None, None) \<and>
   parameterEstimation (\<lambda>i. unassignedOf 0) 50
       (samplerOf [[0, 1, 2, 3]] [1 / 20, 23 / 50, 47 / 100, 1 / 50])
     = Inr ([[73 / 50, 1, 2, 2, - 2]],
            samplerOf [[0, 1, 2, 3]] [1 / 20, 23 / 50, 47 / 100, 1 / 50]) \<and>
   parameterEstimation (\<lambda>i. unassignedOf 5) 50
       (samplerOf [[0, 1, 2, 3]] [1 / 20, 23 / 50, 47 / 100, 1 / 50])
     = Inr ([[73 / 50, 1, 2, - 3, 3]],
            samplerOf [[0, 1, 2, 3]] [1 / 20, 23 / 50, 47 / 100, 1 / 50])"
proof -
  let ?pc = "[0, 1, 2, 3 :: real]"
  let ?md = "[1 / 20, 23 / 50, 47 / 100, 1 / 50 :: real]"
  have e: "parameterEstimation us (6827 / 100) (samplerOf [?pc] ?md)
             = Inr ([[73 / 50, 1, 2, 2, 1]], samplerOf [?pc] ?md)"
    by (simp add: sampler_simps eval_simps run_simps)
  have m: "mergedMarginal u (samplerOf [?pc] ?md) 0 = Inr (?pc, ?md)"
    by (simp add: mergedMarginal_def sampler_simps eval_simps)
  have mc: "maxCoeff ?md = Inr (47 / 100, 2)" by (simp add: maxCoeff_def)
  have "{1..2::nat} = {1, 2}" by auto
  then have ci: "credibleInterval (6827 / 100) ?pc ?md 2 1 2"
    by (simp add: credibleInterval_def)
  have ns: "\<not> shortestCredibleInterval (6827 / 100) ?pc ?md 2 0 3"
  proof
    assume "shortestCredibleInterval (6827 / 100) ?pc ?md 2 0 3"
    then have "\<forall>lo' \<in> {..2}. \<forall>hi' \<in> {2..<length ?pc}.
                 credibleInterval (6827 / 100) ?pc ?md 2 lo' hi' \<longrightarrow>
                 ?pc ! 3 - ?pc ! 0 \<le> ?pc ! hi' - ?pc ! lo'"
      by (simp add: shortestCredibleInterval_def)
    then have "credibleInterval (6827 / 100) ?pc ?md 2 1 2 \<longrightarrow> ?pc ! 3 - ?pc ! 0 \<le> ?pc ! 2 - ?pc ! 1"
      by (elim ballE [where x = 1] ballE [where x = 2]) simp_all
    with ci show False by simp
  qed
  have ml: "medianLoop ?pc ?md None 0 0 = Inr (Some 1, 51 / 100, 2)"
    by (simp add: medianLoop.simps coeff_def)
  have cl: "credibleLoop 50 ?pc ?md [1 / 20, 23 / 50, 47 / 100] 2 (51 / 100) 1 None None
              = Inr (51 / 100, 1, None, None)"
    by (simp add: credibleLoop.simps)
  have s0: "parameterEstimation (\<lambda>i. unassignedOf 0) 50 (samplerOf [?pc] ?md)
              = Inr ([[73 / 50, 1, 2, 2, - 2]], samplerOf [?pc] ?md)"
    by (simp add: sampler_simps eval_simps run_simps unassignedOf_def)
  have s5: "parameterEstimation (\<lambda>i. unassignedOf 5) 50 (samplerOf [?pc] ?md)
              = Inr ([[73 / 50, 1, 2, - 3, 3]], samplerOf [?pc] ?md)"
    by (simp add: sampler_simps eval_simps run_simps unassignedOf_def)
  from e m mc ci ns ml cl s0 s5 show ?thesis by simp
qed

theorem credible_interval_not_shortest_witness:
  "parameterEstimation (\<lambda>i. unassignedOf 0) (6827 / 100)
       (samplerOf [[0, 1, 2, 3]] [1 / 20, 23 / 50, 47 / 100, 1 / 50])
     = Inr ([[73 / 50, 1, 2, 2, 1]], samplerOf [[0, 1, 2, 3]] [1 / 20, 23 / 50, 47 / 100, 1 / 50]) \<and>
   credibleInterval (6827 / 100) [0, 1, 2, 3] [1 / 20, 23 / 50, 47 / 100, 1 / 50] 2 1 2 \<and>
   \<not> shortestCredibleInterval (6827 / 100) [0, 1, 2, 3] [1 / 20, 23 / 50, 47 / 100, 1 / 50] 2 0 3"
  using credible_interval_not_shortest [of "\<lambda>i. unassignedOf 0" "unassignedOf 0"] by blast

text \<open>
  C9 fails on the code.  With the values 1, 2, 3 and the posterior probabilities 0.25,
  0.3, 0.45, which sum to 1, the mode is the last merged value; the median loop leaves
  0.55, below the level 68.27, so the credible-interval loop is entered and its first
  access, at \<open>max + stepRight\<close>, is one past the end of the merged arrays.
\<close>

theorem credible_loop_out_of_bounds:
  "sum_list (posteriorProbability (samplerOf [[1, 2, 3]] [1 / 4, 3 / 10, 9 / 20])) = 1 \<and>
   mergedMarginal u (samplerOf [[1, 2, 3]] [1 / 4, 3 / 10, 9 / 20]) 0
     = Inr ([1, 2, 3], [1 / 4, 3 / 10, 9 / 20]) \<and>
   medianLoop [1, 2, 3] [1 / 4, 3 / 10, 9 / 20] None 0 0 = Inr (Some 2, 11 / 20, 2) \<and>
   maxCoeff [1 / 4, 3 / 10, 9 / 20] = Inr (9 / 20, 2) \<and>
   coeff [1 / 4, 3 / 10, 9 / 20 :: real] (2 + 1) = Inl OutOfBounds \<and>
   parameterEstimation us (6827 / 100) (samplerOf [[1, 2, 3]] [1 / 4, 3 / 10, 9 / 20])
     = Inl OutOfBounds"
  by (simp add: mergedMarginal_def sampler_simps eval_simps run_simps)

text \<open>
  C10.  Neither operation changes the sampler: the sampler that posteriorProbability
  leaves behind is the one it was called on, and so is the one parameterEstimation
  leaves behind whenever it returns; the body of its loop writes only to the local
  arrays, which are copies.
\<close>

theorem sampler_unchanged:
  "snd (Results_posteriorProbability s) = s \<and>
   (\<forall>est s'. parameterEstimation us p s = Inr (est, s') \<longrightarrow>
      posteriorSample s' = posteriorSample s \<and>
      logWeightOfPosteriorSample s' = logWeightOfPosteriorSample s \<and>
      getLogEvidence s' = getLogEvidence s \<and> s' = s)"
  by (auto simp: Results_posteriorProbability_def dest: parameterEstimation_Inr)

theorem sampler_unchanged_witness:
  "parameterEstimation (\<lambda>i. unassignedOf 0) (6827 / 100)
       (samplerOf [[2, 1, 3, 2]] [1 / 20, 9 / 20, 9 / 20, 1 / 20])
     = Inr ([[2, 2, 1, 0, 2]], samplerOf [[2, 1, 3, 2]] [1 / 20, 9 / 20, 9 / 20, 1 / 20]) \<and>
   snd (Results_posteriorProbability (samplerOf [[2, 1, 3, 2]] [1 / 20, 9 / 20, 9 / 20, 1 / 20]))
     = samplerOf [[2, 1, 3, 2]] [1 / 20, 9 / 20, 9 / 20, 1 / 20]"
  using sampler_unchanged [of "samplerOf [[2, 1, 3, 2]] [1 / 20, 9 / 20, 9 / 20, 1 / 20]"
          "\<lambda>i. unassignedOf 0" "6827 / 100"]
    ties_estimation [of "\<lambda>i. unassignedOf 0"]
  by blast

section \<open>The format of the output\<close>

lemmas stream_simps = inserted_def openOutputFile_def put_string_def put_double_def endl_def
  set_scientific_def set_fixed_def setprecision_def setw_def arrayXdToFile_def
  arrayXXdToFile_def

text \<open>
  C8, as amended.  Every number of the data of the four files is written, or handed to
  the array writer of \<open>File\<close>, with the stream in scientific notation and precision 9:
  the log likelihoods, the three evidence values, the posterior probabilities and the
  parameter estimates.  The summary file holds one more number, the credible level in
  its header, which is written in fixed notation with precision 2.
\<close>

theorem output_formats:
  "numericFormats (written (writeLogLikelihoodToFile fullPath s)) = [(scientific, 9)] \<and>
   numericFormats (written (writeEvidenceInformationToFile fullPath s))
     = [(scientific, 9), (scientific, 9), (scientific, 9)] \<and>
   numericFormats (written (writePosteriorProbabilityToFile fullPath s)) = [(scientific, 9)] \<and>
   (\<forall>outputFile. writeParameterEstimationToFile us fullPath credibleLevel s = Inr outputFile \<longrightarrow>
      numericFormats (written outputFile) = [(fixed, 2), (scientific, 9)])"
  by (auto simp: writeLogLikelihoodToFile_def writeEvidenceInformationToFile_def
        writePosteriorProbabilityToFile_def writeParameterEstimationToFile_def
        andThen_Inr stream_simps Let_def)

theorem output_formats_witness:
  "\<not> isl (writeParameterEstimationToFile (\<lambda>i. unassignedOf 0)
            ''ParameterSummary.txt'' (6827 / 100)
            (samplerOf [[2, 1, 3, 2]] [1 / 20, 9 / 20, 9 / 20, 1 / 20])) \<and>
   numericFormats (written (projr (writeParameterEstimationToFile (\<lambda>i. unassignedOf 0)
      ''ParameterSummary.txt'' (6827 / 100)
      (samplerOf [[2, 1, 3, 2]] [1 / 20, 9 / 20, 9 / 20, 1 / 20]))))
     = [(fixed, 2), (scientific, 9)]"
proof -
  let ?w = "writeParameterEstimationToFile (\<lambda>i. unassignedOf 0)
              ''ParameterSummary.txt'' (6827 / 100)
              (samplerOf [[2, 1, 3, 2]] [1 / 20, 9 / 20, 9 / 20, 1 / 20])"
  have "\<exists>outputFile. ?w = Inr outputFile"
    by (simp add: writeParameterEstimationToFile_def ties_estimation andThen_def)
  then obtain outputFile where w: "?w = Inr outputFile" ..
  with output_formats [of "''ParameterSummary.txt''" _ "\<lambda>i. unassignedOf 0" "6827 / 100"]
  have "numericFormats (written outputFile) = [(fixed, 2), (scientific, 9)]" by blast
  with w show ?thesis by simp
qed

text \<open>
  C8 as stated fails: the credible level in the header of the summary file is a number
  that writeParameterEstimationToFile writes in fixed notation with precision 2.
\<close>

theorem output_formats_counterexample:
  "\<not> isl (writeParameterEstimationToFile (\<lambda>i. unassignedOf 0)
            ''ParameterSummary.txt'' (6827 / 100)
            (samplerOf [[2, 1, 3, 2]] [1 / 20, 9 / 20, 9 / 20, 1 / 20])) \<and>
   Number fixed 2 0 (6827 / 100)
     \<in> set (written (projr (writeParameterEstimationToFile (\<lambda>i. unassignedOf 0)
          ''ParameterSummary.txt'' (6827 / 100)
          (samplerOf [[2, 1, 3, 2]] [1 / 20, 9 / 20, 9 / 20, 1 / 20]))))"
  by (simp add: writeParameterEstimationToFile_def ties_estimation andThen_def stream_simps)

end
